theory Spec2Isabelle
  imports Main "HOL-Library.Word"
begin

unbundle bit_operations_syntax

section \<open>The file-transfer sessions of the document portal\<close>

text \<open>
  The embedding follows \<^verbatim>\<open>document-portal/file-transfer.c\<close>. The process-wide hash
  table \<^verbatim>\<open>transfers\<close> is a map from keys to sessions, every handler takes the table
  and returns the table it leaves behind, and a handler's answer on the bus is the
  \<^verbatim>\<open>g_dbus_method_invocation_return_*\<close> call it makes. The two mutexes only serialise
  the handlers; each handler is modelled as one atomic step.
\<close>

subsection \<open>Data\<close>

record XdpAppInfo =
  info_id :: string
  info_is_host :: bool

record FileTransfer =
  files :: "string list"
  writable :: bool
  autostop :: bool
  key :: string
  sender :: string
  app_info :: XdpAppInfo

type_synonym transfers = "string \<rightharpoonup> FileTransfer"

datatype error_domain = G_DBUS_ERROR | XDG_DESKTOP_PORTAL_ERROR | G_IO_ERROR

datatype error_code = ACCESS_DENIED | INVALID_ARGS | NOT_ALLOWED | FAILED

datatype GError = GError error_domain error_code string

text \<open>
  The three ways in which the handlers answer an invocation. \<open>Return_gerror None\<close> is
  the call \<^verbatim>\<open>g_dbus_method_invocation_return_gerror (invocation, error)\<close> made while
  \<^verbatim>\<open>error\<close> is still \<^verbatim>\<open>NULL\<close>: GLib rejects it in a precondition check, logs a
  critical message and sends nothing to the caller.
\<close>

datatype 'a reply =
    Return_value 'a
  | Return_error error_domain error_code string
  | Return_gerror "GError option"

record invocation =
  get_sender :: string

datatype GVariant = V_boolean bool | V_string string | V_uint32 "32 word"

type_synonym vardict = "string \<rightharpoonup> GVariant"

subsection \<open>What the handlers use from outside this file\<close>

text \<open>
  Modelled from the spec: \<^verbatim>\<open>document-enums.h\<close> is not among the sources. The spec
  names the permissions (read, write) and the two add flags (reuse-existing,
  as-needed); they are distinct single bits that the code combines with \<^verbatim>\<open>|\<close>.
\<close>

definition DOCUMENT_PERMISSION_FLAGS_READ :: "32 word" where
  "DOCUMENT_PERMISSION_FLAGS_READ = 1"

definition DOCUMENT_PERMISSION_FLAGS_WRITE :: "32 word" where
  "DOCUMENT_PERMISSION_FLAGS_WRITE = 2"

definition DOCUMENT_ADD_FLAGS_REUSE_EXISTING :: "32 word" where
  "DOCUMENT_ADD_FLAGS_REUSE_EXISTING = 1"

definition DOCUMENT_ADD_FLAGS_AS_NEEDED_BY_APP :: "32 word" where
  "DOCUMENT_ADD_FLAGS_AS_NEEDED_BY_APP = 4"

text \<open>
  One call of \<^verbatim>\<open>document_add_full\<close>: the files whose descriptors are passed (each
  opened with \<^verbatim>\<open>O_PATH\<close> from the stored path), the flags, the owner of the session,
  the target application and the permissions granted to it.
\<close>

record doc_add_call =
  da_files :: "string list"
  da_flags :: "32 word"
  da_owner :: XdpAppInfo
  da_target :: string
  da_perms :: "32 word"

text \<open>
  The collaborators that live in other files or in GLib: the sandbox-aware resolver
  \<^verbatim>\<open>xdp_app_info_get_path_for_fd\<close> (\<open>None\<close> is a \<^verbatim>\<open>NULL\<close> path, otherwise the path
  and whether the descriptor is open for writing), the document store
  (\<open>Inl\<close> is \<^verbatim>\<open>NULL\<close> with the error set, \<open>Inr\<close> one document id per file, the empty
  id for a file that needs no wrapping), the mount point of the store and GLib's two
  path functions.
\<close>

record ft_env =
  get_path_for_fd :: "XdpAppInfo \<Rightarrow> int \<Rightarrow> (string \<times> bool) option"
  document_add_full :: "doc_add_call \<Rightarrow> GError + string list"
  fuse_get_mountpoint :: string
  path_get_basename :: "string \<Rightarrow> string"
  build_filename :: "string \<Rightarrow> string \<Rightarrow> string \<Rightarrow> string"

subsection \<open>Keys\<close>

text \<open>\<^verbatim>\<open>g_strdup_printf ("%u", g_random_int ())\<close>: the decimal digits of a 32-bit value.\<close>

definition digit_char :: "nat \<Rightarrow> char" where
  "digit_char d = char_of (48 + d)"

function print_u :: "nat \<Rightarrow> string" where
  "print_u n = (if n < 10 then [digit_char n] else print_u (n div 10) @ [digit_char (n mod 10)])"
  by pat_completeness auto
termination
  by (relation "measure (\<lambda>n. n)") auto

declare print_u.simps [simp del]

subsection \<open>Registry operations\<close>

definition lookup_transfer :: "transfers \<Rightarrow> string \<Rightarrow> FileTransfer option" where
  "lookup_transfer ts k = ts k"

text \<open>
  \<^verbatim>\<open>file_transfer_start\<close>: a new session under a random key; the function returns the
  session and leaves the table behind. The table was created without a function that
  releases keys, and the key string of an entry belongs to its session. When the key is
  already present, \<^verbatim>\<open>g_hash_table_insert\<close> keeps the key string of the older session
  and releases that session through \<^verbatim>\<open>file_transfer_free\<close>, which frees this very
  string: the table then holds a key in freed memory, and what a later lookup compares
  against is undefined. Such a table is \<open>None\<close>.
\<close>

definition file_transfer_start ::
  "transfers \<Rightarrow> 32 word \<Rightarrow> XdpAppInfo \<Rightarrow> string \<Rightarrow> bool \<Rightarrow> bool
     \<Rightarrow> FileTransfer \<times> transfers option" where
  "file_transfer_start ts rnd info snd_name wr au =
     (let transfer = \<lparr>files = [], writable = wr, autostop = au,
                       key = print_u (unat rnd), sender = snd_name, app_info = info\<rparr>
      in (transfer,
          if ts (key transfer) = None then Some (ts(key transfer \<mapsto> transfer)) else None))"

text \<open>
  \<^verbatim>\<open>file_transfer_stop\<close>: \<^verbatim>\<open>g_hash_table_steal\<close> takes the session's own key out of the
  table; the memory is released later from an idle callback.
\<close>

definition file_transfer_stop :: "transfers \<Rightarrow> FileTransfer \<Rightarrow> transfers" where
  "file_transfer_stop ts transfer = ts(key transfer := None)"

definition file_transfer_add_files :: "FileTransfer \<Rightarrow> string list \<Rightarrow> FileTransfer" where
  "file_transfer_add_files transfer new_files = transfer\<lparr>files := files transfer @ new_files\<rparr>"

subsection \<open>StartTransfer\<close>

text \<open>
  \<^verbatim>\<open>g_variant_lookup (options, name, "b", &v)\<close> succeeds only for an entry that is
  present and holds a boolean.
\<close>

definition lookup_boolean :: "vardict \<Rightarrow> string \<Rightarrow> bool option" where
  "lookup_boolean options name =
     (case options name of Some (V_boolean b) \<Rightarrow> Some b | _ \<Rightarrow> None)"

definition start_transfer ::
  "transfers \<Rightarrow> 32 word \<Rightarrow> invocation \<Rightarrow> vardict \<Rightarrow> XdpAppInfo
     \<Rightarrow> string reply \<times> transfers option" where
  "start_transfer ts rnd invoc options info =
     (let wr = (case lookup_boolean options ''writable'' of None \<Rightarrow> False | Some b \<Rightarrow> b);
          au = (case lookup_boolean options ''autostop'' of None \<Rightarrow> True | Some b \<Rightarrow> b);
          (transfer, ts') = file_transfer_start ts rnd info (get_sender invoc) wr au
      in (Return_value (key transfer), ts'))"

subsection \<open>AddFiles\<close>

text \<open>
  The descriptor named by one handle of the payload. \<^verbatim>\<open>fds\<close> are the descriptors
  attached to the message and \<^verbatim>\<open>n_fds\<close> their number. The code only tests
  \<^verbatim>\<open>fd_id < n_fds\<close>: a negative handle reads in front of the array, and a message
  without any descriptor has no list object, in which case \<^verbatim>\<open>n_fds\<close> is never
  assigned before it is compared. Both are reads that C leaves undefined.
\<close>

datatype fd_slot = Fd int | Undefined_read

definition fd_for_id :: "int list \<Rightarrow> int \<Rightarrow> fd_slot" where
  "fd_for_id fds fd_id =
     (if fds = [] then Undefined_read
      else if fd_id < int (length fds)
           then (if fd_id < 0 then Undefined_read else Fd (fds ! nat fd_id))
           else Fd (- 1))"

text \<open>How a handler run ends: with one answer on the bus, or in undefined behaviour.\<close>

datatype 'a outcome = Replied "'a reply" | Undefined_behaviour

text \<open>
  The \<^verbatim>\<open>while (g_variant_iter_next (iter, "h", &fd_id))\<close> loop of \<^verbatim>\<open>add_files\<close>. The
  paths are collected in a local array; \<open>Inl\<close> is an early \<^verbatim>\<open>return\<close>.
\<close>

fun add_files_loop ::
  "ft_env \<Rightarrow> XdpAppInfo \<Rightarrow> bool \<Rightarrow> int list \<Rightarrow> int list \<Rightarrow> string list
     \<Rightarrow> unit outcome + string list" where
  "add_files_loop env info wr fds [] acc = Inr acc"
| "add_files_loop env info wr fds (fd_id # rest) acc =
     (case fd_for_id fds fd_id of
        Undefined_read \<Rightarrow> Inl Undefined_behaviour
      | Fd fd \<Rightarrow>
          if fd = - 1 then Inl (Replied (Return_gerror None))
          else (case get_path_for_fd env info fd of
                  None \<Rightarrow>
                    Inl (Replied (Return_error XDG_DESKTOP_PORTAL_ERROR NOT_ALLOWED
                                    ''Can't export file''))
                | Some (path, fd_is_writable) \<Rightarrow>
                    if wr \<and> \<not> fd_is_writable
                    then Inl (Replied (Return_error XDG_DESKTOP_PORTAL_ERROR NOT_ALLOWED
                                         ''Can't export file''))
                    else add_files_loop env info wr fds rest (acc @ [path])))"

definition add_files ::
  "ft_env \<Rightarrow> transfers \<Rightarrow> invocation \<Rightarrow> string \<Rightarrow> int list \<Rightarrow> int list \<Rightarrow> XdpAppInfo
     \<Rightarrow> unit outcome \<times> transfers" where
  "add_files env ts invoc k fd_ids fds info =
     (case lookup_transfer ts k of
        None \<Rightarrow> (Replied (Return_error G_DBUS_ERROR ACCESS_DENIED ''Invalid transfer''), ts)
      | Some transfer \<Rightarrow>
          if sender transfer \<noteq> get_sender invoc
          then (Replied (Return_error G_DBUS_ERROR ACCESS_DENIED ''Invalid transfer''), ts)
          else (case add_files_loop env info (writable transfer) fds fd_ids [] of
                  Inl early \<Rightarrow> (early, ts)
                | Inr new_files \<Rightarrow>
                    (Replied (Return_value ()),
                     ts(k \<mapsto> file_transfer_add_files transfer new_files))))"

subsection \<open>RetrieveFiles\<close>

text \<open>
  \<^verbatim>\<open>g_strdupv\<close> copies an array of string pointers up to its first \<^verbatim>\<open>NULL\<close> pointer
  (\<open>None\<close> is a \<^verbatim>\<open>NULL\<close> cell), and returns \<^verbatim>\<open>NULL\<close> for a \<^verbatim>\<open>NULL\<close> array.
\<close>

fun strdupv_cells :: "string option list \<Rightarrow> string list" where
  "strdupv_cells [] = []"
| "strdupv_cells (None # cells) = []"
| "strdupv_cells (Some s # cells) = s # strdupv_cells cells"

definition g_strdupv :: "string option list option \<Rightarrow> string list option" where
  "g_strdupv str_array = (case str_array of None \<Rightarrow> None | Some cells \<Rightarrow> Some (strdupv_cells cells))"

text \<open>
  What \<^verbatim>\<open>transfer->files->pdata\<close> points to. The pointer array holds the
  \<^verbatim>\<open>len\<close> stored paths, written by \<^verbatim>\<open>g_ptr_array_add\<close> only, so no terminating
  \<^verbatim>\<open>NULL\<close> is ever stored after them; \<open>beyond\<close> is whatever the memory behind the
  last stored pointer holds when it is read. An array nothing was added to has
  \<^verbatim>\<open>pdata == NULL\<close>.
\<close>

definition pdata :: "string list \<Rightarrow> string option list \<Rightarrow> string option list option" where
  "pdata stored beyond = (if stored = [] then None else Some (map Some stored @ beyond))"

definition execute_perms :: "FileTransfer \<Rightarrow> 32 word" where
  "execute_perms transfer =
     (if writable transfer
      then DOCUMENT_PERMISSION_FLAGS_READ OR DOCUMENT_PERMISSION_FLAGS_WRITE
      else DOCUMENT_PERMISSION_FLAGS_READ)"

text \<open>The \<^verbatim>\<open>document_add_full\<close> call that \<^verbatim>\<open>file_transfer_execute\<close> makes for a sandboxed target.\<close>

definition execute_call :: "FileTransfer \<Rightarrow> XdpAppInfo \<Rightarrow> doc_add_call" where
  "execute_call transfer target =
     \<lparr>da_files = files transfer,
      da_flags = DOCUMENT_ADD_FLAGS_REUSE_EXISTING OR DOCUMENT_ADD_FLAGS_AS_NEEDED_BY_APP,
      da_owner = app_info transfer,
      da_target = info_id target,
      da_perms = execute_perms transfer\<rparr>"

text \<open>
  \<^verbatim>\<open>file_transfer_execute\<close> returns the files (\<open>None\<close> is \<^verbatim>\<open>NULL\<close>) and leaves the error
  that the document store has set, if any; the third component lists the calls made to
  the document store. The document store answers with one id for each descriptor.
\<close>

definition file_transfer_execute ::
  "ft_env \<Rightarrow> string option list \<Rightarrow> FileTransfer \<Rightarrow> XdpAppInfo
     \<Rightarrow> string list option \<times> GError option \<times> doc_add_call list" where
  "file_transfer_execute env beyond transfer target =
     (if info_is_host target then (g_strdupv (pdata (files transfer) beyond), None, [])
      else (case document_add_full env (execute_call transfer target) of
              Inl err \<Rightarrow> (None, Some err, [execute_call transfer target])
            | Inr ids \<Rightarrow>
                (Some (map (\<lambda>(file, doc_id).
                              if doc_id = [] then file
                              else build_filename env (fuse_get_mountpoint env) doc_id
                                     (path_get_basename env file))
                         (zip (files transfer) ids)),
                 None, [execute_call transfer target])))"

text \<open>
  \<^verbatim>\<open>retrieve_files\<close>: the answer, the table afterwards, and the calls made to the
  document store.
\<close>

definition retrieve_files ::
  "ft_env \<Rightarrow> string option list \<Rightarrow> transfers \<Rightarrow> invocation \<Rightarrow> string \<Rightarrow> XdpAppInfo
     \<Rightarrow> string list reply \<times> transfers \<times> doc_add_call list" where
  "retrieve_files env beyond ts invoc k info =
     (case lookup_transfer ts k of
        None \<Rightarrow> (Return_error G_DBUS_ERROR ACCESS_DENIED ''Invalid transfer'', ts, [])
      | Some transfer \<Rightarrow>
          (case file_transfer_execute env beyond transfer info of
             (result, error, calls) \<Rightarrow>
               ((case result of None \<Rightarrow> Return_gerror error | Some paths \<Rightarrow> Return_value paths),
                (if autostop transfer then file_transfer_stop ts transfer else ts),
                calls)))"

subsection \<open>StopTransfer\<close>

definition stop_transfer ::
  "transfers \<Rightarrow> invocation \<Rightarrow> string \<Rightarrow> XdpAppInfo \<Rightarrow> unit reply \<times> transfers" where
  "stop_transfer ts invoc k info =
     (case lookup_transfer ts k of
        None \<Rightarrow> (Return_error G_DBUS_ERROR ACCESS_DENIED ''Invalid transfer'', ts)
      | Some transfer \<Rightarrow> (Return_value (), file_transfer_stop ts transfer))"

subsection \<open>Calls in sequence\<close>

text \<open>
  The four methods as calls on the table. A call of \<^verbatim>\<open>AddFiles\<close> that runs into
  undefined behaviour has no defined successor table, and neither has a call of
  \<^verbatim>\<open>StartTransfer\<close> that draws a key already in the table.
\<close>

datatype ft_call =
    Call_start "32 word" invocation vardict XdpAppInfo
  | Call_add_files ft_env invocation string "int list" "int list" XdpAppInfo
  | Call_retrieve_files ft_env "string option list" invocation string XdpAppInfo
  | Call_stop invocation string XdpAppInfo

fun ft_step :: "ft_call \<Rightarrow> transfers \<Rightarrow> transfers option" where
  "ft_step (Call_start rnd invoc options info) ts = snd (start_transfer ts rnd invoc options info)"
| "ft_step (Call_add_files env invoc k fd_ids fds info) ts =
     (case add_files env ts invoc k fd_ids fds info of
        (Undefined_behaviour, ts') \<Rightarrow> None
      | (Replied answer, ts') \<Rightarrow> Some ts')"
| "ft_step (Call_retrieve_files env beyond invoc k info) ts =
     Some (fst (snd (retrieve_files env beyond ts invoc k info)))"
| "ft_step (Call_stop invoc k info) ts = Some (snd (stop_transfer ts invoc k info))"

fun ft_run :: "ft_call list \<Rightarrow> transfers \<Rightarrow> transfers option" where
  "ft_run [] ts = Some ts"
| "ft_run (c # cs) ts = (case ft_step c ts of None \<Rightarrow> None | Some ts' \<Rightarrow> ft_run cs ts')"

text \<open>
  The calls that end the session under a key: a stop of that key, and a start whose
  random number prints as that key.
\<close>

fun ends :: "string \<Rightarrow> ft_call \<Rightarrow> bool" where
  "ends k (Call_stop invoc k' info) = (k' = k)"
| "ends k (Call_start rnd invoc options info) = (print_u (unat rnd) = k)"
| "ends k c = False"

subsection \<open>Vocabulary of the statements\<close>

text \<open>
  Every session sits in the table under its own key, as \<^verbatim>\<open>file_transfer_start\<close>
  inserts it.
\<close>

definition keyed :: "transfers \<Rightarrow> bool" where
  "keyed ts \<longleftrightarrow> (\<forall>k t. ts k = Some t \<longrightarrow> key t = k)"

text \<open>
  A handle of the payload refers to a descriptor attached to the message; the
  descriptor it refers to is refused by the loop (no path, or not open for writing
  although the session is writable); the path the descriptor resolves to.
\<close>

definition attached :: "int list \<Rightarrow> int \<Rightarrow> bool" where
  "attached fds fd_id \<longleftrightarrow> 0 \<le> fd_id \<and> fd_id < int (length fds) \<and> fds ! nat fd_id \<noteq> - 1"

definition refused :: "ft_env \<Rightarrow> XdpAppInfo \<Rightarrow> bool \<Rightarrow> int list \<Rightarrow> int \<Rightarrow> bool" where
  "refused env info wr fds fd_id =
     (case get_path_for_fd env info (fds ! nat fd_id) of
        None \<Rightarrow> True
      | Some (path, fd_is_writable) \<Rightarrow> wr \<and> \<not> fd_is_writable)"

definition resolved_path :: "ft_env \<Rightarrow> XdpAppInfo \<Rightarrow> int list \<Rightarrow> int \<Rightarrow> string" where
  "resolved_path env info fds fd_id = fst (the (get_path_for_fd env info (fds ! nat fd_id)))"

subsection \<open>Sample inputs\<close>

definition sample_owner :: XdpAppInfo where
  "sample_owner = \<lparr>info_id = ''org.example.Sender'', info_is_host = False\<rparr>"

definition sample_target :: XdpAppInfo where
  "sample_target = \<lparr>info_id = ''org.example.Receiver'', info_is_host = False\<rparr>"

definition sample_host :: XdpAppInfo where
  "sample_host = \<lparr>info_id = [], info_is_host = True\<rparr>"

definition owner_call :: invocation where
  "owner_call = \<lparr>get_sender = '':1.10''\<rparr>"

definition other_call :: invocation where
  "other_call = \<lparr>get_sender = '':1.66''\<rparr>"

text \<open>
  Descriptor 3 is \<^verbatim>\<open>/home/u/a.txt\<close> opened read-write, descriptor 4 is
  \<^verbatim>\<open>/home/u/b.txt\<close> opened read-only, nothing else resolves; the document store
  registers every file under the id \<^verbatim>\<open>d0c\<close>.
\<close>

definition sample_env :: ft_env where
  "sample_env =
     \<lparr>get_path_for_fd = (\<lambda>info fd. if fd = 3 then Some (''/home/u/a.txt'', True)
                                     else if fd = 4 then Some (''/home/u/b.txt'', False)
                                     else None),
      document_add_full = (\<lambda>c. Inr (map (\<lambda>f. ''d0c'') (da_files c))),
      fuse_get_mountpoint = ''/run/user/1000/doc'',
      path_get_basename = (\<lambda>p. rev (takeWhile (\<lambda>c. c \<noteq> CHR ''/'') (rev p))),
      build_filename = (\<lambda>a b c. a @ ''/'' @ b @ ''/'' @ c)\<rparr>"

definition sample_transfer :: "bool \<Rightarrow> bool \<Rightarrow> FileTransfer" where
  "sample_transfer wr au =
     \<lparr>files = [], writable = wr, autostop = au, key = ''7'', sender = '':1.10'',
      app_info = sample_owner\<rparr>"

section \<open>Requests and the permission-ask pattern\<close>

text \<open>
  The handlers of \<^verbatim>\<open>actions.c\<close>, \<^verbatim>\<open>gnome-accounts.c\<close> and \<^verbatim>\<open>geolocation.c\<close> run on a
  \<^verbatim>\<open>Request\<close> while holding its lock. A handler run takes the permission store and
  the request and returns both together with the calls and signals it made, in order.
\<close>

subsection \<open>Data\<close>

record Request =
  exported :: bool
  app_id :: string
  request_id :: string
  request_sender :: string
  impl_request :: "string option"

datatype Permission = UNSET | NO | YES | ASK

text \<open>
  What a handler run does to the outside: a \<^verbatim>\<open>g_warning\<close>, an access dialog driven
  through the backend, a write to the permission store (table, id, app, permissions),
  the \<^verbatim>\<open>ActivateAction\<close> call to the target application, a response emitted on the
  request, a location update emitted on it, and a close forwarded to the backend.
\<close>

datatype event =
    Warning string
  | Access_dialog string string
  | Store_write string string string "string list"
  | Activate_action string string
  | Response string nat
  | Location_updated string
  | Close_forwarded string

text \<open>
  Modelled from the spec: the response codes of \<^verbatim>\<open>xdp-utils.h\<close>, which is not among the
  sources: success is 0, cancelled is 1, other failure is 2.
\<close>

definition XDG_DESKTOP_PORTAL_RESPONSE_SUCCESS :: nat where
  "XDG_DESKTOP_PORTAL_RESPONSE_SUCCESS = 0"

definition XDG_DESKTOP_PORTAL_RESPONSE_CANCELLED :: nat where
  "XDG_DESKTOP_PORTAL_RESPONSE_CANCELLED = 1"

definition XDG_DESKTOP_PORTAL_RESPONSE_OTHER :: nat where
  "XDG_DESKTOP_PORTAL_RESPONSE_OTHER = 2"

text \<open>
  Modelled from the spec: the permission store is an external service with two
  operations, lookup (table, id) and set (table, id, app, value); decisions are keyed by
  (table, object id, app id) and are lists of string tokens. Either call can fail, which
  the handlers see as a \<^verbatim>\<open>FALSE\<close> return with an error.
\<close>

type_synonym perm_store = "string \<times> string \<times> string \<rightharpoonup> string list"

definition store_lookup ::
  "perm_store \<Rightarrow> bool \<Rightarrow> string \<Rightarrow> string \<Rightarrow> (string \<rightharpoonup> string list) option" where
  "store_lookup st fails table obj = (if fails then None else Some (\<lambda>app. st (table, obj, app)))"

definition store_set_permission ::
  "perm_store \<Rightarrow> bool \<Rightarrow> string \<Rightarrow> string \<Rightarrow> string \<Rightarrow> string list \<Rightarrow> perm_store option" where
  "store_set_permission st fails table obj app perms =
     (if fails then None else Some (st((table, obj, app) \<mapsto> perms)))"

text \<open>
  Modelled from the spec: \<^verbatim>\<open>request.c\<close> is not among the sources. Unexporting retires
  the request (exported, then removed, no way back); a delegate handle is attached for
  forwarding a cancellation; close forwards the cancellation to an attached delegate,
  then removes the request, and emits a cancelled response only if it was still
  exported.
\<close>

definition request_unexport :: "Request \<Rightarrow> Request" where
  "request_unexport request = request\<lparr>exported := False\<rparr>"

definition request_set_impl_request :: "Request \<Rightarrow> string option \<Rightarrow> Request" where
  "request_set_impl_request request handle = request\<lparr>impl_request := handle\<rparr>"

definition close_request :: "Request \<Rightarrow> Request \<times> event list" where
  "close_request request =
     (request_unexport request,
      (case impl_request request of None \<Rightarrow> [] | Some handle \<Rightarrow> [Close_forwarded handle]) @
      (if exported request
       then [Response (request_id request) XDG_DESKTOP_PORTAL_RESPONSE_CANCELLED] else []))"

text \<open>
  What the outside does during one handler run: whether the store calls fail, the
  answer of the access dialog (\<open>None\<close> when the backend call fails, otherwise the
  response it reports), whether the \<^verbatim>\<open>ActivateAction\<close> call to the application
  succeeds, the clock, and GLib's \<^verbatim>\<open>g_ascii_strtoll\<close>.
\<close>

record req_env =
  lookup_fails :: bool
  set_fails :: bool
  access_dialog :: "nat option"
  activate_succeeds :: bool
  monotonic_time :: int
  ascii_strtoll :: "string \<Rightarrow> int"

subsection \<open>ActivateAction\<close>

definition TABLE_NAME :: string where
  "TABLE_NAME = ''actions''"

definition get_permission ::
  "perm_store \<Rightarrow> bool \<Rightarrow> string \<Rightarrow> string \<Rightarrow> string \<Rightarrow> Permission \<times> event list" where
  "get_permission st fails app application action =
     (let obj = application @ ''::'' @ action
      in case store_lookup st fails TABLE_NAME obj of
           None \<Rightarrow> (UNSET, [Warning ''Error reading from permission store''])
         | Some out_perms \<Rightarrow>
             (case out_perms app of
                None \<Rightarrow> (UNSET, [])
              | Some permissions \<Rightarrow>
                  if length permissions \<noteq> 1
                  then (UNSET, [Warning ''Wrong permission format, ignoring''])
                  else if hd permissions = ''yes'' then (YES, [])
                  else if hd permissions = ''no'' then (NO, [])
                  else if hd permissions = ''ask'' then (ASK, [])
                  else (UNSET, [Warning ''Wrong permission format, ignoring''])))"

definition set_permission ::
  "perm_store \<Rightarrow> bool \<Rightarrow> string \<Rightarrow> string \<Rightarrow> string \<Rightarrow> Permission \<Rightarrow> perm_store \<times> event list" where
  "set_permission st fails app application action permission =
     (let obj = application @ ''::'' @ action
      in if permission = UNSET then (st, [Warning ''Wrong permission format, ignoring''])
         else
           (let permissions = [if permission = ASK then ''ask''
                               else if permission = YES then ''yes'' else ''no'']
            in case store_set_permission st fails TABLE_NAME obj app permissions of
                 None \<Rightarrow> (st, [Store_write TABLE_NAME obj app permissions,
                                Warning ''Error updating permission store''])
               | Some st' \<Rightarrow> (st', [Store_write TABLE_NAME obj app permissions])))"

text \<open>
  \<^verbatim>\<open>handle_activate_action_in_thread\<close>. \<open>application\<close> and \<open>action\<close> are the strings
  that \<^verbatim>\<open>handle_activate_action\<close> attached to the request. The texts of the dialog
  have no influence on what follows and are left out.
\<close>

definition handle_activate_action_in_thread ::
  "req_env \<Rightarrow> perm_store \<Rightarrow> Request \<Rightarrow> string \<Rightarrow> string \<Rightarrow> perm_store \<times> Request \<times> event list" where
  "handle_activate_action_in_thread env st request application action =
     (let (permission, ev1) = get_permission st (lookup_fails env) (app_id request) application action;
          (allowed, st', ev2) =
            (if permission = ASK \<or> permission = UNSET
             then
               (let (access_response, ev_dialog) =
                      (case access_dialog env of
                         None \<Rightarrow> (2, [Access_dialog (request_id request) (app_id request),
                                       Warning ''A backend call failed''])
                       | Some r \<Rightarrow> (r, [Access_dialog (request_id request) (app_id request)]));
                    allowed = (access_response = 0);
                    (st', ev_set) =
                      (if permission = UNSET
                       then set_permission st (set_fails env) (app_id request) application action
                              (if allowed then YES else NO)
                       else (st, []))
                in (allowed, st', ev_dialog @ ev_set))
             else (permission = YES, st, []));
          (response, ev3) =
            (if allowed
             then (if activate_succeeds env
                   then (XDG_DESKTOP_PORTAL_RESPONSE_SUCCESS, [Activate_action application action])
                   else (XDG_DESKTOP_PORTAL_RESPONSE_OTHER,
                         [Activate_action application action, Warning ''Failed to activate action'']))
             else (XDG_DESKTOP_PORTAL_RESPONSE_CANCELLED, []))
      in if exported request
         then (st', request_unexport request, ev1 @ ev2 @ ev3 @ [Response (request_id request) response])
         else (st', request, ev1 @ ev2 @ ev3))"

subsection \<open>GNOME accounts\<close>

definition send_response_in_thread_func :: "Request \<Rightarrow> nat \<Rightarrow> Request \<times> event list" where
  "send_response_in_thread_func request response =
     (if exported request
      then (request_unexport request, [Response (request_id request) response])
      else (request, []))"

text \<open>
  \<^verbatim>\<open>get_accounts_done\<close>; \<^verbatim>\<open>add_account_done\<close> and \<^verbatim>\<open>ensure_credentials_done\<close> have the
  same body. \<open>finish\<close> is the outcome of the backend call: \<open>None\<close> when it failed,
  otherwise the response it carries. The response is attached to the request and sent
  from a worker thread.
\<close>

definition get_accounts_done :: "Request \<Rightarrow> nat option \<Rightarrow> Request \<times> event list" where
  "get_accounts_done request finish =
     (let (response, ev) = (case finish of None \<Rightarrow> (2, [Warning ''Backend call failed''])
                                         | Some r \<Rightarrow> (r, []));
          (request', ev') = send_response_in_thread_func request response
      in (request', ev @ ev'))"

subsection \<open>TrackLocation\<close>

definition PERMISSIONS_TABLE :: string where
  "PERMISSIONS_TABLE = ''portals''"

definition PERMISSIONS_ID :: string where
  "PERMISSIONS_ID = ''geolocation''"

text \<open>\<^verbatim>\<open>g_strdup_printf ("%li", timestamp)\<close>.\<close>

definition print_li :: "int \<Rightarrow> string" where
  "print_li i = (if i < 0 then CHR ''-'' # print_u (nat (- i)) else print_u (nat i))"

definition get_geolocation_permissions ::
  "req_env \<Rightarrow> perm_store \<Rightarrow> string \<Rightarrow> (bool \<times> int) option \<times> event list" where
  "get_geolocation_permissions env st app =
     (case store_lookup st (lookup_fails env) PERMISSIONS_TABLE PERMISSIONS_ID of
        None \<Rightarrow> (None, [Warning ''Error getting permissions''])
      | Some out_perms \<Rightarrow>
          (case out_perms app of
             None \<Rightarrow> (None, [])
           | Some perms \<Rightarrow>
               if length perms < 2 then (None, [Warning ''Wrong permission format''])
               else (Some (perms ! 0 \<noteq> ''NONE'', ascii_strtoll env (perms ! 1)), [])))"

definition set_geolocation_permissions ::
  "req_env \<Rightarrow> perm_store \<Rightarrow> string \<Rightarrow> bool \<Rightarrow> int \<Rightarrow> perm_store \<times> event list" where
  "set_geolocation_permissions env st app allowed timestamp =
     (let permissions = [if allowed then ''EXACT'' else ''NONE'', print_li timestamp]
      in case store_set_permission st (set_fails env) PERMISSIONS_TABLE PERMISSIONS_ID app permissions of
           None \<Rightarrow> (st, [Store_write PERMISSIONS_TABLE PERMISSIONS_ID app permissions,
                          Warning ''Error setting permissions''])
         | Some st' \<Rightarrow> (st', [Store_write PERMISSIONS_TABLE PERMISSIONS_ID app permissions]))"

text \<open>
  The end of \<^verbatim>\<open>handle_track_in_thread_func\<close>, the label \<^verbatim>\<open>out\<close>: the response is
  emitted if the request is exported; \<^verbatim>\<open>request_unexport\<close> is not called.
\<close>

definition track_out :: "perm_store \<Rightarrow> Request \<Rightarrow> event list \<Rightarrow> nat \<Rightarrow> perm_store \<times> Request \<times> event list" where
  "track_out st request ev response =
     (st, request, ev @ (if exported request then [Response (request_id request) response] else []))"

text \<open>
  The part of \<^verbatim>\<open>handle_track_in_thread_func\<close> after the decision is known: the
  permission record is written, then the request either is refused or joins the
  location stream. The table of tracked requests only feeds later location updates
  and is represented by the first update. \<^verbatim>\<open>emit_location_updated\<close> sends the update
  on the connections the request is exported on, so a request that is not exported
  gets none.
\<close>

definition track_decided ::
  "req_env \<Rightarrow> perm_store \<Rightarrow> Request \<Rightarrow> event list \<Rightarrow> bool \<Rightarrow> int \<Rightarrow> perm_store \<times> Request \<times> event list" where
  "track_decided env st request ev allowed last_used =
     (let (st', ev_set) = set_geolocation_permissions env st (app_id request) allowed
                            (if allowed then monotonic_time env else last_used)
      in if \<not> allowed then track_out st' request (ev @ ev_set) 1
         else track_out st' request
                (ev @ ev_set @
                 (if exported request then [Location_updated (request_id request)] else [])) 0)"

definition handle_track_in_thread_func ::
  "req_env \<Rightarrow> perm_store \<Rightarrow> Request \<Rightarrow> perm_store \<times> Request \<times> event list" where
  "handle_track_in_thread_func env st request =
     (case get_geolocation_permissions env st (app_id request) of
        (Some (allowed, last_used), ev) \<Rightarrow> track_decided env st request ev allowed last_used
      | (None, ev) \<Rightarrow>
          (let request1 = request_set_impl_request request (Some (request_id request))
           in case access_dialog env of
                None \<Rightarrow>
                  track_out st request1
                    (ev @ [Access_dialog (request_id request) (app_id request),
                           Warning ''Failed to show access dialog'']) 2
              | Some access_response \<Rightarrow>
                  track_decided env st (request_set_impl_request request1 None)
                    (ev @ [Access_dialog (request_id request) (app_id request)])
                    (access_response = 0) 0))"

subsection \<open>Observing a run\<close>

text \<open>The response codes, the dialogs and the store writes among the events of a run.\<close>

fun responses :: "event list \<Rightarrow> nat list" where
  "responses [] = []"
| "responses (Response rid code # evs) = code # responses evs"
| "responses (ev # evs) = responses evs"

fun dialogs :: "event list \<Rightarrow> nat" where
  "dialogs [] = 0"
| "dialogs (Access_dialog rid app # evs) = Suc (dialogs evs)"
| "dialogs (ev # evs) = dialogs evs"

fun store_writes :: "event list \<Rightarrow> nat" where
  "store_writes [] = 0"
| "store_writes (Store_write table obj app perms # evs) = Suc (store_writes evs)"
| "store_writes (ev # evs) = store_writes evs"

text \<open>
  What can happen to one request over its lifetime, in any order and any number of
  times: the worker of \<^verbatim>\<open>ActivateAction\<close>, the completion of a GNOME-accounts call,
  the worker of \<^verbatim>\<open>TrackLocation\<close>, and a close.
\<close>

datatype request_op =
    Op_activate req_env string string
  | Op_accounts_done "nat option"
  | Op_track req_env
  | Op_close

fun request_step :: "request_op \<Rightarrow> perm_store \<times> Request \<Rightarrow> perm_store \<times> Request \<times> event list" where
  "request_step (Op_activate env application action) (st, request) =
     handle_activate_action_in_thread env st request application action"
| "request_step (Op_accounts_done finish) (st, request) =
     (let (request', ev) = get_accounts_done request finish in (st, request', ev))"
| "request_step (Op_track env) (st, request) = handle_track_in_thread_func env st request"
| "request_step Op_close (st, request) =
     (let (request', ev) = close_request request in (st, request', ev))"

fun request_run :: "request_op list \<Rightarrow> perm_store \<times> Request \<Rightarrow> perm_store \<times> Request \<times> event list" where
  "request_run [] (st, request) = (st, request, [])"
| "request_run (op # ops) (st, request) =
     (case request_step op (st, request) of
        (st1, request1, ev1) \<Rightarrow>
          (case request_run ops (st1, request1) of
             (st2, request2, ev2) \<Rightarrow> (st2, request2, ev1 @ ev2)))"

fun unexporting :: "request_op \<Rightarrow> bool" where
  "unexporting (Op_track env) = False"
| "unexporting op = True"

text \<open>
  A series of \<^verbatim>\<open>ActivateAction\<close> calls for one application and action, each with its
  own request and its own environment, run one after the other on the store.
\<close>

fun activate_calls ::
  "(req_env \<times> Request) list \<Rightarrow> string \<Rightarrow> string \<Rightarrow> perm_store \<Rightarrow> perm_store \<times> event list" where
  "activate_calls [] application action st = (st, [])"
| "activate_calls ((env, request) # calls) application action st =
     (case handle_activate_action_in_thread env st request application action of
        (st1, request1, ev1) \<Rightarrow>
          (case activate_calls calls application action st1 of
             (st2, ev2) \<Rightarrow> (st2, ev1 @ ev2)))"

subsection \<open>Sample inputs\<close>

text \<open>
  An exported request of the application \<^verbatim>\<open>org.example.Caller\<close>; a permission store in
  which that application has a stored location decision; an environment in which the
  store and the backend answer and the user grants access.
\<close>

definition sample_request :: Request where
  "sample_request =
     \<lparr>exported = True, app_id = ''org.example.Caller'', request_id = ''/request/1'',
      request_sender = '':1.10'', impl_request = None\<rparr>"

definition geo_store :: perm_store where
  "geo_store = [(''portals'', ''geolocation'', ''org.example.Caller'') \<mapsto> [''EXACT'', ''5'']]"

definition sample_req_env :: req_env where
  "sample_req_env =
     \<lparr>lookup_fails = False, set_fails = False, access_dialog = Some 0, activate_succeeds = True,
      monotonic_time = 1000, ascii_strtoll = (\<lambda>s. 5)\<rparr>"

section \<open>Properties of the file-transfer sessions\<close>

subsection \<open>The descriptor loop\<close>

lemma fd_for_id_attached: "attached fds fd_id \<Longrightarrow> fd_for_id fds fd_id = Fd (fds ! nat fd_id)"
  by (auto simp: attached_def fd_for_id_def)

lemma loop_success:
  "add_files_loop env info wr fds fd_ids acc = Inr new_files \<Longrightarrow>
     new_files = acc @ map (resolved_path env info fds) fd_ids \<and>
     (\<forall>fd_id\<in>set fd_ids. attached fds fd_id \<and> \<not> refused env info wr fds fd_id)"
proof (induction fd_ids arbitrary: acc)
  case Nil
  then show ?case by simp
next
  case (Cons fd_id rest)
  from Cons.prems obtain fd where slot: "fd_for_id fds fd_id = Fd fd" and live: "fd \<noteq> - 1"
    by (auto split: fd_slot.splits if_splits)
  from slot live have fd: "fd = fds ! nat fd_id" and att: "attached fds fd_id"
    by (auto simp: fd_for_id_def attached_def split: if_splits)
  from Cons.prems slot live obtain path w where
    res: "get_path_for_fd env info fd = Some (path, w)" and ok: "\<not> (wr \<and> \<not> w)"
    and rest: "add_files_loop env info wr fds rest (acc @ [path]) = Inr new_files"
    by (auto split: option.splits if_splits)
  from Cons.IH [OF rest] res fd att ok show ?case
    by (simp add: resolved_path_def refused_def)
qed

lemma loop_refused:
  "\<forall>fd_id\<in>set fd_ids. attached fds fd_id \<Longrightarrow>
   \<exists>fd_id\<in>set fd_ids. refused env info wr fds fd_id \<Longrightarrow>
   add_files_loop env info wr fds fd_ids acc =
     Inl (Replied (Return_error XDG_DESKTOP_PORTAL_ERROR NOT_ALLOWED ''Can't export file''))"
proof (induction fd_ids arbitrary: acc)
  case Nil
  then show ?case by simp
next
  case (Cons fd_id rest)
  from Cons.prems(1) have att: "attached fds fd_id" by simp
  then have slot: "fd_for_id fds fd_id = Fd (fds ! nat fd_id)" and live: "fds ! nat fd_id \<noteq> - 1"
    by (simp_all add: fd_for_id_attached) (simp add: attached_def)
  show ?case
  proof (cases "refused env info wr fds fd_id")
    case True
    with slot live show ?thesis
      by (auto simp: refused_def split: option.splits)
  next
    case False
    with Cons.prems have "\<forall>x\<in>set rest. attached fds x" "\<exists>x\<in>set rest. refused env info wr fds x"
      by auto
    from Cons.IH [OF this] False slot live show ?thesis
      by (auto simp: refused_def split: option.splits)
  qed
qed

lemma loop_early_no_value:
  "add_files_loop env info wr fds fd_ids acc = Inl early \<Longrightarrow> early \<noteq> Replied (Return_value ())"
  by (induction fd_ids arbitrary: acc) (auto split: fd_slot.splits option.splits if_splits)

lemma add_files_owned:
  "ts k = Some t \<Longrightarrow> sender t = get_sender invoc \<Longrightarrow>
   add_files env ts invoc k fd_ids fds info =
     (case add_files_loop env info (writable t) fds fd_ids [] of
        Inl early \<Rightarrow> (early, ts)
      | Inr new_files \<Rightarrow> (Replied (Return_value ()), ts(k \<mapsto> file_transfer_add_files t new_files)))"
  by (simp add: add_files_def lookup_transfer_def)

subsection \<open>Tables along a sequence of calls\<close>

lemma keyed_single: "key t = k \<Longrightarrow> keyed [k \<mapsto> t]"
  by (simp add: keyed_def)

lemma keyed_step:
  assumes "keyed ts" and "ft_step c ts = Some ts'"
  shows "keyed ts'"
proof (cases c)
  case (Call_start rnd invoc options info)
  with assms show ?thesis
    by (auto simp: keyed_def start_transfer_def file_transfer_start_def Let_def split: if_splits)
next
  case (Call_add_files env invoc k fd_ids fds info)
  with assms show ?thesis
    by (auto simp: keyed_def add_files_def lookup_transfer_def file_transfer_add_files_def
        split: option.splits if_splits sum.splits outcome.splits)
next
  case (Call_retrieve_files env beyond invoc k info)
  with assms show ?thesis
    by (auto simp: keyed_def retrieve_files_def lookup_transfer_def file_transfer_stop_def
        split: option.splits if_splits prod.splits)
next
  case (Call_stop invoc k info)
  with assms show ?thesis
    by (auto simp: keyed_def stop_transfer_def lookup_transfer_def file_transfer_stop_def
        split: option.splits if_splits)
qed

lemma alive_step:
  assumes "keyed ts" and "ts k = Some t" and "\<not> autostop t" and "\<not> ends k c"
    and "ft_step c ts = Some ts'"
  shows "\<exists>t'. ts' k = Some t' \<and> \<not> autostop t'"
proof (cases c)
  case (Call_start rnd invoc options info)
  with assms show ?thesis
    by (auto simp: start_transfer_def file_transfer_start_def Let_def split: if_splits)
next
  case (Call_add_files env invoc k' fd_ids fds info)
  with assms show ?thesis
    by (auto simp: add_files_def lookup_transfer_def file_transfer_add_files_def
        split: option.splits if_splits sum.splits outcome.splits)
next
  case (Call_retrieve_files env beyond invoc k' info)
  with assms show ?thesis
    by (auto simp: keyed_def retrieve_files_def lookup_transfer_def file_transfer_stop_def
        split: option.splits if_splits prod.splits)
next
  case (Call_stop invoc k' info)
  with assms show ?thesis
    by (auto simp: keyed_def stop_transfer_def lookup_transfer_def file_transfer_stop_def
        split: option.splits if_splits)
qed

lemma alive_run:
  "keyed ts \<Longrightarrow> ts k = Some t \<Longrightarrow> \<not> autostop t \<Longrightarrow> \<forall>c\<in>set cs. \<not> ends k c \<Longrightarrow>
   ft_run cs ts = Some ts' \<Longrightarrow> \<exists>t'. ts' k = Some t' \<and> \<not> autostop t'"
proof (induction cs arbitrary: ts t)
  case Nil
  then show ?case by simp
next
  case (Cons c cs)
  from Cons.prems(5) obtain ts1 where step: "ft_step c ts = Some ts1" and run: "ft_run cs ts1 = Some ts'"
    by (auto split: option.splits)
  from Cons.prems(4) have quiet: "\<not> ends k c" and rest: "\<forall>c\<in>set cs. \<not> ends k c"
    by simp_all
  from alive_step [OF Cons.prems(1-3) quiet step] obtain t1 where t1: "ts1 k = Some t1" "\<not> autostop t1"
    by blast
  from Cons.IH [OF keyed_step [OF Cons.prems(1) step] t1 rest run] show ?case .
qed

lemma retrieve_files_stops:
  "ts k = Some t \<Longrightarrow> key t = k \<Longrightarrow> autostop t \<Longrightarrow>
   fst (snd (retrieve_files env beyond ts invoc k info)) k = None"
  by (simp add: retrieve_files_def lookup_transfer_def file_transfer_stop_def split: prod.splits)

lemma retrieve_files_keeps:
  "ts k = Some t \<Longrightarrow> \<not> autostop t \<Longrightarrow>
   fst (snd (retrieve_files env beyond ts invoc k info)) = ts"
  by (simp add: retrieve_files_def lookup_transfer_def split: prod.splits)

subsection \<open>Starting a session\<close>

lemma start_transfer_result:
  "start_transfer ts rnd invoc options info =
     (Return_value (print_u (unat rnd)),
      if ts (print_u (unat rnd)) = None
      then Some (ts(print_u (unat rnd) \<mapsto>
             \<lparr>files = [],
              writable = (case lookup_boolean options ''writable'' of None \<Rightarrow> False | Some b \<Rightarrow> b),
              autostop = (case lookup_boolean options ''autostop'' of None \<Rightarrow> True | Some b \<Rightarrow> b),
              key = print_u (unat rnd), sender = get_sender invoc, app_info = info\<rparr>))
      else None)"
  by (simp add: start_transfer_def file_transfer_start_def Let_def)

lemma lookup_boolean_or:
  "(case lookup_boolean options name of None \<Rightarrow> d | Some b \<Rightarrow> b) =
     (case options name of Some (V_boolean b) \<Rightarrow> b | _ \<Rightarrow> d)"
  by (simp add: lookup_boolean_def split: option.splits GVariant.splits)

lemma print_u_7: "print_u 7 = ''7''"
  by code_simp

lemma print_u_8: "print_u 8 = ''8''"
  by code_simp

subsection \<open>The pointer array of a session\<close>

text \<open>
  When the cell behind the stored paths happens to hold \<^verbatim>\<open>NULL\<close>, the host gets the
  stored paths and nothing else.
\<close>

lemma strdupv_stored: "strdupv_cells (map Some stored @ None # rest) = stored"
  by (induction stored) simp_all

lemma host_round_trip_terminated:
  "ts k = Some t \<Longrightarrow> files t \<noteq> [] \<Longrightarrow> info_is_host target \<Longrightarrow>
   fst (retrieve_files env (None # rest) ts invoc k target) = Return_value (files t)"
  by (simp add: retrieve_files_def lookup_transfer_def file_transfer_execute_def g_strdupv_def
      pdata_def strdupv_stored)

lemma perms_word [simp]:
  "(DOCUMENT_PERMISSION_FLAGS_READ OR DOCUMENT_PERMISSION_FLAGS_WRITE) AND DOCUMENT_PERMISSION_FLAGS_WRITE \<noteq> 0"
  "DOCUMENT_PERMISSION_FLAGS_READ AND DOCUMENT_PERMISSION_FLAGS_WRITE = 0"
  "DOCUMENT_PERMISSION_FLAGS_WRITE \<noteq> 0"
  by (simp_all add: DOCUMENT_PERMISSION_FLAGS_READ_def DOCUMENT_PERMISSION_FLAGS_WRITE_def)

subsection \<open>Unknown and foreign keys\<close>

text \<open>
  C1, as far as the code goes. \<^verbatim>\<open>AddFiles\<close> answers an unknown key and a key of a
  session that another connection owns with the same access-denied error and leaves
  the table alone. \<^verbatim>\<open>RetrieveFiles\<close> and \<^verbatim>\<open>StopTransfer\<close> answer an unknown key with
  that very error and leave the table alone. \<^verbatim>\<open>RetrieveFiles\<close> never looks at the
  calling connection: whoever holds the key gets the same result.
\<close>

theorem access_denied_alike:
  "((ts k = None \<or> (\<exists>t. ts k = Some t \<and> sender t \<noteq> get_sender invoc)) \<longrightarrow>
      add_files env ts invoc k fd_ids fds info =
        (Replied (Return_error G_DBUS_ERROR ACCESS_DENIED ''Invalid transfer''), ts)) \<and>
   (ts k = None \<longrightarrow>
      retrieve_files env beyond ts invoc k info =
        (Return_error G_DBUS_ERROR ACCESS_DENIED ''Invalid transfer'', ts, []) \<and>
      stop_transfer ts invoc k info =
        (Return_error G_DBUS_ERROR ACCESS_DENIED ''Invalid transfer'', ts)) \<and>
   retrieve_files env beyond ts invoc k info = retrieve_files env beyond ts invoc' k info"
  by (auto simp: add_files_def retrieve_files_def stop_transfer_def lookup_transfer_def)

theorem access_denied_alike_witness:
  "Map.empty ''7'' = (None :: FileTransfer option) \<and>
   add_files sample_env Map.empty other_call ''7'' [0] [3] sample_target =
     (Replied (Return_error G_DBUS_ERROR ACCESS_DENIED ''Invalid transfer''), Map.empty) \<and>
   [''7'' \<mapsto> sample_transfer False False] ''7'' = Some (sample_transfer False False) \<and>
   sender (sample_transfer False False) \<noteq> get_sender other_call \<and>
   add_files sample_env [''7'' \<mapsto> sample_transfer False False] other_call ''7'' [0] [3] sample_target =
     (Replied (Return_error G_DBUS_ERROR ACCESS_DENIED ''Invalid transfer''),
      [''7'' \<mapsto> sample_transfer False False]) \<and>
   retrieve_files sample_env [None] Map.empty other_call ''7'' sample_target =
     (Return_error G_DBUS_ERROR ACCESS_DENIED ''Invalid transfer'', Map.empty, []) \<and>
   stop_transfer Map.empty other_call ''7'' sample_target =
     (Return_error G_DBUS_ERROR ACCESS_DENIED ''Invalid transfer'', Map.empty)"
proof -
  have foreign: "sender (sample_transfer False False) \<noteq> get_sender other_call"
    by (simp add: sample_transfer_def other_call_def)
  from access_denied_alike [of Map.empty "''7''" other_call sample_env "[0]" "[3]" sample_target "[None]"]
    access_denied_alike [of "[''7'' \<mapsto> sample_transfer False False]" "''7''" other_call sample_env
      "[0]" "[3]" sample_target "[None]"] foreign
  show ?thesis
    by simp
qed

text \<open>
  C1 as stated fails: a connection that does not own the session retrieves its files,
  and \<^verbatim>\<open>StopTransfer\<close> from such a connection succeeds and removes the session.
\<close>

theorem foreign_connection_counterexample:
  "sender ((sample_transfer False False)\<lparr>files := [''/home/u/a.txt'']\<rparr>) \<noteq> get_sender other_call \<and>
   retrieve_files sample_env [None]
       [''7'' \<mapsto> (sample_transfer False False)\<lparr>files := [''/home/u/a.txt'']\<rparr>]
       other_call ''7'' sample_host =
     (Return_value [''/home/u/a.txt''],
      [''7'' \<mapsto> (sample_transfer False False)\<lparr>files := [''/home/u/a.txt'']\<rparr>], []) \<and>
   stop_transfer [''7'' \<mapsto> (sample_transfer False False)\<lparr>files := [''/home/u/a.txt'']\<rparr>]
       other_call ''7'' sample_target =
     (Return_value (), Map.empty)"
  by (simp add: retrieve_files_def stop_transfer_def lookup_transfer_def file_transfer_execute_def
      file_transfer_stop_def g_strdupv_def pdata_def sample_transfer_def other_call_def sample_host_def)

subsection \<open>All or nothing\<close>

text \<open>
  On a session the caller owns, a payload with an attached descriptor that does not
  resolve, or that is not open for writing while the session is writable, never
  succeeds and leaves the table, hence the session's path list, exactly as it was; when
  every handle of the payload refers to an attached descriptor the answer is the
  not-allowed error. Whenever the call changes the table at all, every descriptor has
  resolved and the session has received the paths of the whole payload, in order.
\<close>

lemma add_files_atomic:
  assumes "ts k = Some t" and "sender t = get_sender invoc"
  shows "((\<exists>fd_id\<in>set fd_ids. attached fds fd_id \<and> refused env info (writable t) fds fd_id) \<longrightarrow>
            snd (add_files env ts invoc k fd_ids fds info) = ts \<and>
            fst (add_files env ts invoc k fd_ids fds info) \<noteq> Replied (Return_value ()) \<and>
            ((\<forall>fd_id\<in>set fd_ids. attached fds fd_id) \<longrightarrow>
               fst (add_files env ts invoc k fd_ids fds info) =
                 Replied (Return_error XDG_DESKTOP_PORTAL_ERROR NOT_ALLOWED ''Can't export file''))) \<and>
         (snd (add_files env ts invoc k fd_ids fds info) \<noteq> ts \<longrightarrow>
            (\<forall>fd_id\<in>set fd_ids. attached fds fd_id \<and> \<not> refused env info (writable t) fds fd_id) \<and>
            snd (add_files env ts invoc k fd_ids fds info) =
              ts(k \<mapsto> t\<lparr>files := files t @ map (resolved_path env info fds) fd_ids\<rparr>))"
proof (cases "add_files_loop env info (writable t) fds fd_ids []")
  case (Inl early)
  have call: "add_files env ts invoc k fd_ids fds info = (early, ts)"
    using assms by (simp add: add_files_owned Inl)
  have "early \<noteq> Replied (Return_value ())"
    using Inl by (rule loop_early_no_value)
  moreover have "early = Replied (Return_error XDG_DESKTOP_PORTAL_ERROR NOT_ALLOWED ''Can't export file'')"
    if "\<forall>fd_id\<in>set fd_ids. attached fds fd_id"
      and "\<exists>fd_id\<in>set fd_ids. attached fds fd_id \<and> refused env info (writable t) fds fd_id"
  proof -
    from that(2) have "\<exists>fd_id\<in>set fd_ids. refused env info (writable t) fds fd_id" by blast
    from loop_refused [OF that(1) this, of "[]"] Inl show ?thesis by simp
  qed
  ultimately show ?thesis
    unfolding call by auto
next
  case (Inr new_files)
  have call: "add_files env ts invoc k fd_ids fds info =
      (Replied (Return_value ()), ts(k \<mapsto> file_transfer_add_files t new_files))"
    using assms by (simp add: add_files_owned Inr)
  from loop_success [OF Inr]
  have paths: "new_files = map (resolved_path env info fds) fd_ids"
    and fine: "\<forall>fd_id\<in>set fd_ids. attached fds fd_id \<and> \<not> refused env info (writable t) fds fd_id"
    by simp_all
  from fine have none: "\<not> (\<exists>fd_id\<in>set fd_ids. attached fds fd_id \<and> refused env info (writable t) fds fd_id)"
    by blast
  from none fine show ?thesis
    unfolding call by (simp add: file_transfer_add_files_def paths)
qed

text \<open>
  C2, evaluated on the code: the owner of a writable session sends the handles 1 and 0
  with one descriptor attached, which is open read-only. The descriptor behind handle 0
  is refused, so the claim promises an error; the loop first meets handle 1, which has
  no descriptor behind it, and ends in \<^verbatim>\<open>g_dbus_method_invocation_return_gerror\<close>
  with a \<^verbatim>\<open>NULL\<close> error, so that no error is sent. The table is unchanged.
\<close>

theorem refused_descriptor_gets_no_error:
  "[''7'' \<mapsto> sample_transfer True True] ''7'' = Some (sample_transfer True True) \<and>
   sender (sample_transfer True True) = get_sender owner_call \<and>
   writable (sample_transfer True True) \<and>
   attached [4] 0 \<and>
   refused sample_env sample_owner (writable (sample_transfer True True)) [4] 0 \<and>
   add_files sample_env [''7'' \<mapsto> sample_transfer True True] owner_call ''7'' [1, 0] [4] sample_owner =
     (Replied (Return_gerror None), [''7'' \<mapsto> sample_transfer True True])"
  by (simp add: add_files_def lookup_transfer_def fd_for_id_def attached_def refused_def
      sample_transfer_def sample_env_def owner_call_def)

subsection \<open>Automatic stop\<close>

text \<open>
  C3. After \<^verbatim>\<open>RetrieveFiles\<close> on a session with autostop set, whatever the answer
  was, the key no longer resolves. On a session without autostop the call leaves the
  table as it was, the key keeps resolving to a session without autostop along every
  sequence of calls that contains neither a stop of the key nor a start that draws it
  again, and \<^verbatim>\<open>StopTransfer\<close> removes it.
\<close>

theorem retrieve_files_autostop:
  assumes "keyed ts" and "ts k = Some t"
  shows "(autostop t \<longrightarrow> fst (snd (retrieve_files env beyond ts invoc k info)) k = None) \<and>
         (\<not> autostop t \<longrightarrow>
            fst (snd (retrieve_files env beyond ts invoc k info)) = ts \<and>
            ((\<forall>c\<in>set cs. \<not> ends k c) \<longrightarrow> ft_run cs ts = Some ts' \<longrightarrow>
               (\<exists>t'. ts' k = Some t' \<and> \<not> autostop t')) \<and>
            snd (stop_transfer ts invoc' k info') k = None)"
proof -
  from assms have own: "key t = k"
    by (simp add: keyed_def)
  have stopped: "autostop t \<Longrightarrow> fst (snd (retrieve_files env beyond ts invoc k info)) k = None"
    using assms(2) own
    by (simp add: retrieve_files_def lookup_transfer_def file_transfer_stop_def split: prod.splits)
  have kept: "\<not> autostop t \<Longrightarrow> fst (snd (retrieve_files env beyond ts invoc k info)) = ts"
    using assms(2)
    by (simp add: retrieve_files_def lookup_transfer_def split: prod.splits)
  have explicit: "snd (stop_transfer ts invoc' k info') k = None"
    using assms(2) own
    by (simp add: stop_transfer_def lookup_transfer_def file_transfer_stop_def)
  from stopped kept explicit alive_run [OF assms, of cs ts'] show ?thesis
    by blast
qed

theorem retrieve_files_autostop_witness:
  "keyed [''7'' \<mapsto> sample_transfer False True] \<and>
   autostop (sample_transfer False True) \<and>
   fst (snd (retrieve_files sample_env [None] [''7'' \<mapsto> sample_transfer False True]
               other_call ''7'' sample_target)) ''7'' = None \<and>
   keyed [''7'' \<mapsto> sample_transfer False False] \<and>
   \<not> autostop (sample_transfer False False) \<and>
   fst (snd (retrieve_files sample_env [None] [''7'' \<mapsto> sample_transfer False False]
               other_call ''7'' sample_target)) = [''7'' \<mapsto> sample_transfer False False] \<and>
   ft_run [Call_retrieve_files sample_env [None] other_call ''7'' sample_target,
           Call_add_files sample_env owner_call ''7'' [0] [3, 4] sample_owner]
      [''7'' \<mapsto> sample_transfer False False] =
     Some [''7'' \<mapsto> (sample_transfer False False)\<lparr>files := [''/home/u/a.txt'']\<rparr>] \<and>
   (\<exists>t'. [''7'' \<mapsto> (sample_transfer False False)\<lparr>files := [''/home/u/a.txt'']\<rparr>] ''7'' = Some t' \<and>
         \<not> autostop t') \<and>
   snd (stop_transfer [''7'' \<mapsto> sample_transfer False False] owner_call ''7'' sample_owner) ''7'' = None"
proof -
  have k1: "keyed [''7'' \<mapsto> sample_transfer False True]"
    and k2: "keyed [''7'' \<mapsto> sample_transfer False False]"
    by (simp_all add: keyed_single sample_transfer_def)
  have run: "ft_run [Call_retrieve_files sample_env [None] other_call ''7'' sample_target,
           Call_add_files sample_env owner_call ''7'' [0] [3, 4] sample_owner]
      [''7'' \<mapsto> sample_transfer False False] =
     Some [''7'' \<mapsto> (sample_transfer False False)\<lparr>files := [''/home/u/a.txt'']\<rparr>]"
    by (simp add: retrieve_files_def add_files_def lookup_transfer_def file_transfer_execute_def
        execute_call_def sample_env_def sample_transfer_def sample_target_def owner_call_def
        fd_for_id_def file_transfer_add_files_def)
  have a: "autostop (sample_transfer False True)" and b: "\<not> autostop (sample_transfer False False)"
    by (simp_all add: sample_transfer_def)
  from retrieve_files_autostop [OF k1, of "''7''" "sample_transfer False True" sample_env "[None]"
      other_call sample_target]
    retrieve_files_autostop [OF k2, of "''7''" "sample_transfer False False" sample_env "[None]"
      other_call sample_target _ _ owner_call sample_owner, where cs = "[Call_retrieve_files sample_env [None] other_call ''7'' sample_target,
           Call_add_files sample_env owner_call ''7'' [0] [3, 4] sample_owner]"] 
    k1 k2 a b run
  show ?thesis
    by simp
qed

subsection \<open>Write permission\<close>

text \<open>
  C7. A session that is not writable accepts a descriptor that is open read-write.
  When a sandboxed application retrieves the files, the document store is asked
  exactly once, for the session's files and for that application, with read permission
  only if the session is not writable; the write bit is set exactly when the session
  is writable.
\<close>

theorem write_only_for_writable:
  assumes "ts k = Some t" and "sender t = get_sender invoc"
  shows "(\<not> writable t \<longrightarrow> attached fds fd_id \<longrightarrow>
            get_path_for_fd env info (fds ! nat fd_id) = Some (path, True) \<longrightarrow>
            add_files env ts invoc k [fd_id] fds info =
              (Replied (Return_value ()), ts(k \<mapsto> t\<lparr>files := files t @ [path]\<rparr>))) \<and>
         (\<not> info_is_host target \<longrightarrow>
            snd (snd (retrieve_files env beyond ts invoc' k target)) \<noteq> [] \<and>
            (\<forall>c\<in>set (snd (snd (retrieve_files env beyond ts invoc' k target))).
               da_files c = files t \<and> da_target c = info_id target \<and>
               (\<not> writable t \<longrightarrow> da_perms c = DOCUMENT_PERMISSION_FLAGS_READ) \<and>
               (da_perms c AND DOCUMENT_PERMISSION_FLAGS_WRITE \<noteq> 0 \<longleftrightarrow> writable t)))"
proof -
  have accept: "add_files env ts invoc k [fd_id] fds info =
      (Replied (Return_value ()), ts(k \<mapsto> t\<lparr>files := files t @ [path]\<rparr>))"
    if "\<not> writable t" and "attached fds fd_id"
      and "get_path_for_fd env info (fds ! nat fd_id) = Some (path, True)"
    using that assms
    by (simp add: add_files_owned fd_for_id_attached file_transfer_add_files_def attached_def)
  have calls: "snd (snd (retrieve_files env beyond ts invoc' k target)) = [execute_call t target]"
    if "\<not> info_is_host target"
    using that assms(1)
    by (simp add: retrieve_files_def lookup_transfer_def file_transfer_execute_def split: sum.splits)
  from accept calls show ?thesis
    by (simp add: execute_call_def execute_perms_def)
qed

theorem write_only_for_writable_witness:
  "[''7'' \<mapsto> sample_transfer False True] ''7'' = Some (sample_transfer False True) \<and>
   sender (sample_transfer False True) = get_sender owner_call \<and>
   \<not> writable (sample_transfer False True) \<and> attached [3] 0 \<and>
   get_path_for_fd sample_env sample_owner ([3] ! nat 0) = Some (''/home/u/a.txt'', True) \<and>
   add_files sample_env [''7'' \<mapsto> sample_transfer False True] owner_call ''7'' [0] [3] sample_owner =
     (Replied (Return_value ()),
      [''7'' \<mapsto> (sample_transfer False True)\<lparr>files := [''/home/u/a.txt'']\<rparr>]) \<and>
   \<not> info_is_host sample_target \<and>
   snd (snd (retrieve_files sample_env [None]
               [''7'' \<mapsto> (sample_transfer False True)\<lparr>files := [''/home/u/a.txt'']\<rparr>]
               other_call ''7'' sample_target)) \<noteq> [] \<and>
   da_perms (hd (snd (snd (retrieve_files sample_env [None]
               [''7'' \<mapsto> (sample_transfer False True)\<lparr>files := [''/home/u/a.txt'']\<rparr>]
               other_call ''7'' sample_target)))) = DOCUMENT_PERMISSION_FLAGS_READ \<and>
   da_perms (hd (snd (snd (retrieve_files sample_env [None]
               [''7'' \<mapsto> (sample_transfer False True)\<lparr>files := [''/home/u/a.txt'']\<rparr>]
               other_call ''7'' sample_target)))) AND DOCUMENT_PERMISSION_FLAGS_WRITE = 0"
proof -
  let ?t = "sample_transfer False True"
  let ?t' = "(sample_transfer False True)\<lparr>files := [''/home/u/a.txt'']\<rparr>"
  let ?calls = "snd (snd (retrieve_files sample_env [None] [''7'' \<mapsto> ?t'] other_call ''7'' sample_target))"
  have own: "sender ?t = get_sender owner_call" "sender ?t' = get_sender owner_call"
    and ro: "\<not> writable ?t" "\<not> writable ?t'"
    by (simp_all add: sample_transfer_def owner_call_def)
  have att: "attached [3] 0"
    by (simp add: attached_def)
  have res: "get_path_for_fd sample_env sample_owner ([3] ! nat 0) = Some (''/home/u/a.txt'', True)"
    by (simp add: sample_env_def)
  have sandboxed: "\<not> info_is_host sample_target"
    by (simp add: sample_target_def)
  have empty: "files ?t = []"
    by (simp add: sample_transfer_def)
  have accepted: "add_files sample_env [''7'' \<mapsto> ?t] owner_call ''7'' [0] [3] sample_owner =
      (Replied (Return_value ()), [''7'' \<mapsto> ?t'])"
    using write_only_for_writable [of "[''7'' \<mapsto> ?t]" "''7''" ?t owner_call "[3]" 0 sample_env
        sample_owner "''/home/u/a.txt''" sample_target "[None]" other_call]
      own(1) ro(1) att res empty
    by simp
  have asked: "?calls \<noteq> []"
    and each: "\<forall>c\<in>set ?calls. da_perms c = DOCUMENT_PERMISSION_FLAGS_READ \<and>
                 da_perms c AND DOCUMENT_PERMISSION_FLAGS_WRITE = 0"
    using write_only_for_writable [of "[''7'' \<mapsto> ?t']" "''7''" ?t' owner_call "[3]" 0 sample_env
        sample_owner "''/home/u/a.txt''" sample_target "[None]" other_call]
      own(2) ro(2) sandboxed
    by simp_all
  from asked each have first: "da_perms (hd ?calls) = DOCUMENT_PERMISSION_FLAGS_READ"
    "da_perms (hd ?calls) AND DOCUMENT_PERMISSION_FLAGS_WRITE = 0"
    by simp_all
  have entry: "[''7'' \<mapsto> ?t] ''7'' = Some ?t"
    by simp
  from entry own(1) ro(1) att res accepted sandboxed asked first show ?thesis
    by (intro conjI)
qed

subsection \<open>Round trip through the host\<close>

text \<open>
  C8, evaluated on the code: after a start and a successful \<^verbatim>\<open>AddFiles\<close> of two
  files, the host's \<^verbatim>\<open>RetrieveFiles\<close> copies the pointer array up to the first
  \<^verbatim>\<open>NULL\<close>, which nothing has stored behind the two paths. With a stale pointer in
  the next cell the answer has a third element.
\<close>

theorem host_round_trip_reads_past_the_paths:
  "start_transfer Map.empty 7 owner_call Map.empty sample_owner =
     (Return_value ''7'', Some [''7'' \<mapsto> sample_transfer False True]) \<and>
   add_files sample_env [''7'' \<mapsto> sample_transfer False True] owner_call ''7'' [0, 1] [3, 4] sample_owner =
     (Replied (Return_value ()),
      [''7'' \<mapsto> (sample_transfer False True)\<lparr>files := [''/home/u/a.txt'', ''/home/u/b.txt'']\<rparr>]) \<and>
   fst (retrieve_files sample_env [Some ''stale'', None]
          [''7'' \<mapsto> (sample_transfer False True)\<lparr>files := [''/home/u/a.txt'', ''/home/u/b.txt'']\<rparr>]
          other_call ''7'' sample_host) =
     Return_value [''/home/u/a.txt'', ''/home/u/b.txt'', ''stale'']"
  by (simp add: start_transfer_def file_transfer_start_def lookup_boolean_def print_u_7 Let_def
      add_files_def lookup_transfer_def fd_for_id_def file_transfer_add_files_def
      retrieve_files_def file_transfer_execute_def g_strdupv_def pdata_def
      sample_transfer_def sample_env_def sample_owner_def sample_host_def owner_call_def)

subsection \<open>Handles without a descriptor\<close>

text \<open>
  C9, evaluated on the code: a payload whose handle 1 has no descriptor behind it
  (one descriptor is attached) ends in \<^verbatim>\<open>g_dbus_method_invocation_return_gerror\<close>
  with a \<^verbatim>\<open>NULL\<close> error, so no error reaches the caller. The table is unchanged.
\<close>

theorem dangling_handle_gets_no_error:
  "\<not> attached [3] 1 \<and>
   add_files sample_env [''7'' \<mapsto> sample_transfer False True] owner_call ''7'' [1] [3] sample_owner =
     (Replied (Return_gerror None), [''7'' \<mapsto> sample_transfer False True])"
  by (simp add: add_files_def lookup_transfer_def fd_for_id_def attached_def sample_transfer_def
      owner_call_def)

subsection \<open>Defaults of StartTransfer\<close>

text \<open>
  C10. A \<^verbatim>\<open>StartTransfer\<close> that draws a key not yet in the table answers with the
  key and leaves a new, empty session of the caller under it. The session is writable
  exactly when the options hold a boolean \<^verbatim>\<open>writable\<close> entry that is true, and has
  autostop set unless they hold a boolean \<^verbatim>\<open>autostop\<close> entry that is false: without a
  \<^verbatim>\<open>writable\<close> entry it is not writable, without an \<^verbatim>\<open>autostop\<close> entry it has
  autostop set. A session with autostop is gone after the first \<^verbatim>\<open>RetrieveFiles\<close>;
  one that survives it was started with \<^verbatim>\<open>autostop\<close> given as false.
\<close>

theorem start_transfer_defaults:
  assumes "ts (print_u (unat rnd)) = None"
  shows "\<exists>t. start_transfer ts rnd invoc options info = (Return_value (key t), Some (ts(key t \<mapsto> t))) \<and>
        key t = print_u (unat rnd) \<and> files t = [] \<and> sender t = get_sender invoc \<and>
        writable t = (case options ''writable'' of Some (V_boolean b) \<Rightarrow> b | _ \<Rightarrow> False) \<and>
        autostop t = (case options ''autostop'' of Some (V_boolean b) \<Rightarrow> b | _ \<Rightarrow> True) \<and>
        (options ''writable'' = None \<longrightarrow> \<not> writable t) \<and>
        (options ''autostop'' = None \<longrightarrow> autostop t) \<and>
        (autostop t \<longrightarrow>
           fst (snd (retrieve_files env beyond (ts(key t \<mapsto> t)) invoc' (key t) info')) (key t) = None) \<and>
        (\<not> autostop t \<longrightarrow>
           options ''autostop'' = Some (V_boolean False) \<and>
           fst (snd (retrieve_files env beyond (ts(key t \<mapsto> t)) invoc' (key t) info')) (key t) = Some t)"
proof -
  define t where "t =
    \<lparr>files = [],
     writable = (case lookup_boolean options ''writable'' of None \<Rightarrow> False | Some b \<Rightarrow> b),
     autostop = (case lookup_boolean options ''autostop'' of None \<Rightarrow> True | Some b \<Rightarrow> b),
     key = print_u (unat rnd), sender = get_sender invoc, app_info = info\<rparr>"
  have k: "key t = print_u (unat rnd)" and empty: "files t = []" and own: "sender t = get_sender invoc"
    by (simp_all add: t_def)
  have result: "start_transfer ts rnd invoc options info = (Return_value (key t), Some (ts(key t \<mapsto> t)))"
    unfolding k using assms by (simp add: start_transfer_result t_def)
  have wr: "writable t = (case options ''writable'' of Some (V_boolean b) \<Rightarrow> b | _ \<Rightarrow> False)"
    by (simp add: t_def lookup_boolean_or)
  have au: "autostop t = (case options ''autostop'' of Some (V_boolean b) \<Rightarrow> b | _ \<Rightarrow> True)"
    by (simp add: t_def lookup_boolean_or)
  have wr_default: "options ''writable'' = None \<Longrightarrow> \<not> writable t"
    by (simp add: wr)
  have au_default: "options ''autostop'' = None \<Longrightarrow> autostop t"
    by (simp add: au)
  have explicit: "\<not> autostop t \<Longrightarrow> options ''autostop'' = Some (V_boolean False)"
    unfolding au by (simp split: option.splits GVariant.splits)
  have torn: "autostop t \<Longrightarrow>
      fst (snd (retrieve_files env beyond (ts(key t \<mapsto> t)) invoc' (key t) info')) (key t) = None"
    using retrieve_files_stops [of "ts(key t \<mapsto> t)" "key t" t] by simp
  have alive: "\<not> autostop t \<Longrightarrow>
      fst (snd (retrieve_files env beyond (ts(key t \<mapsto> t)) invoc' (key t) info')) (key t) = Some t"
    using retrieve_files_keeps [of "ts(key t \<mapsto> t)" "key t" t] by simp
  from result k empty own wr au wr_default au_default explicit torn alive
  have "start_transfer ts rnd invoc options info = (Return_value (key t), Some (ts(key t \<mapsto> t))) \<and>
        key t = print_u (unat rnd) \<and> files t = [] \<and> sender t = get_sender invoc \<and>
        writable t = (case options ''writable'' of Some (V_boolean b) \<Rightarrow> b | _ \<Rightarrow> False) \<and>
        autostop t = (case options ''autostop'' of Some (V_boolean b) \<Rightarrow> b | _ \<Rightarrow> True) \<and>
        (options ''writable'' = None \<longrightarrow> \<not> writable t) \<and>
        (options ''autostop'' = None \<longrightarrow> autostop t) \<and>
        (autostop t \<longrightarrow>
           fst (snd (retrieve_files env beyond (ts(key t \<mapsto> t)) invoc' (key t) info')) (key t) = None) \<and>
        (\<not> autostop t \<longrightarrow>
           options ''autostop'' = Some (V_boolean False) \<and>
           fst (snd (retrieve_files env beyond (ts(key t \<mapsto> t)) invoc' (key t) info')) (key t) = Some t)"
    by (intro conjI impI) simp_all
  then show ?thesis
    by (rule exI [of _ t])
qed

theorem start_transfer_defaults_witness:
  "[''7'' \<mapsto> sample_transfer False False] (print_u (unat (8 :: 32 word))) = None \<and>
   (Map.empty :: vardict) ''writable'' = None \<and> (Map.empty :: vardict) ''autostop'' = None \<and>
   (\<exists>t. start_transfer [''7'' \<mapsto> sample_transfer False False] 8 owner_call Map.empty sample_owner =
           (Return_value (key t), Some [''7'' \<mapsto> sample_transfer False False, key t \<mapsto> t]) \<and>
         key t = ''8'' \<and> \<not> writable t \<and> autostop t \<and>
         fst (snd (retrieve_files sample_env [None]
                     [''7'' \<mapsto> sample_transfer False False, key t \<mapsto> t]
                     other_call (key t) sample_target)) (key t) = None) \<and>
   [''autostop'' \<mapsto> V_boolean False, ''writable'' \<mapsto> V_boolean True] ''autostop'' =
     Some (V_boolean False) \<and>
   (\<exists>t. start_transfer [''7'' \<mapsto> sample_transfer False False] 8 owner_call
           [''autostop'' \<mapsto> V_boolean False, ''writable'' \<mapsto> V_boolean True] sample_owner =
           (Return_value (key t), Some [''7'' \<mapsto> sample_transfer False False, key t \<mapsto> t]) \<and>
         key t = ''8'' \<and> writable t \<and> \<not> autostop t \<and>
         fst (snd (retrieve_files sample_env [None]
                     [''7'' \<mapsto> sample_transfer False False, key t \<mapsto> t]
                     other_call (key t) sample_target)) (key t) = Some t) \<and>
   (\<exists>t. start_transfer [''7'' \<mapsto> sample_transfer False False] 8 owner_call
           [''autostop'' \<mapsto> V_string ''no'', ''writable'' \<mapsto> V_boolean False] sample_owner =
           (Return_value (key t), Some [''7'' \<mapsto> sample_transfer False False, key t \<mapsto> t]) \<and>
         \<not> writable t \<and> autostop t)"
proof -
  let ?ts = "[''7'' \<mapsto> sample_transfer False False]"
  have eight: "print_u (unat (8 :: 32 word)) = ''8''"
    by (simp add: print_u_8)
  have fresh: "?ts (print_u (unat (8 :: 32 word))) = None"
    unfolding eight by simp
  from start_transfer_defaults [of ?ts 8 owner_call Map.empty sample_owner sample_env "[None]"
      other_call sample_target] fresh
  have by_default: "\<exists>t. start_transfer ?ts 8 owner_call Map.empty sample_owner =
           (Return_value (key t), Some (?ts(key t \<mapsto> t))) \<and>
         key t = ''8'' \<and> \<not> writable t \<and> autostop t \<and>
         fst (snd (retrieve_files sample_env [None] (?ts(key t \<mapsto> t)) other_call (key t) sample_target))
           (key t) = None"
    unfolding eight by auto
  from start_transfer_defaults [of ?ts 8 owner_call
      "[''autostop'' \<mapsto> V_boolean False, ''writable'' \<mapsto> V_boolean True]" sample_owner
      sample_env "[None]" other_call sample_target] fresh
  have kept: "\<exists>t. start_transfer ?ts 8 owner_call
           [''autostop'' \<mapsto> V_boolean False, ''writable'' \<mapsto> V_boolean True] sample_owner =
           (Return_value (key t), Some (?ts(key t \<mapsto> t))) \<and>
         key t = ''8'' \<and> writable t \<and> \<not> autostop t \<and>
         fst (snd (retrieve_files sample_env [None] (?ts(key t \<mapsto> t)) other_call (key t) sample_target))
           (key t) = Some t"
    unfolding eight by auto
  from start_transfer_defaults [of ?ts 8 owner_call
      "[''autostop'' \<mapsto> V_string ''no'', ''writable'' \<mapsto> V_boolean False]" sample_owner
      sample_env "[None]" other_call sample_target] fresh
  have mistyped: "\<exists>t. start_transfer ?ts 8 owner_call
           [''autostop'' \<mapsto> V_string ''no'', ''writable'' \<mapsto> V_boolean False] sample_owner =
           (Return_value (key t), Some (?ts(key t \<mapsto> t))) \<and>
         \<not> writable t \<and> autostop t"
    by auto
  from fresh by_default kept mistyped show ?thesis
    by simp
qed

section \<open>Properties of the requests\<close>

subsection \<open>Events of the parts of a handler\<close>

lemma responses_append [simp]: "responses (xs @ ys) = responses xs @ responses ys"
  by (induction xs rule: responses.induct) simp_all

lemma dialogs_append [simp]: "dialogs (xs @ ys) = dialogs xs + dialogs ys"
  by (induction xs rule: dialogs.induct) simp_all

lemma store_writes_append [simp]: "store_writes (xs @ ys) = store_writes xs + store_writes ys"
  by (induction xs rule: store_writes.induct) simp_all

lemma get_permission_quiet:
  assumes "get_permission st fails app application action = (p, ev)"
  shows "responses ev = []" and "dialogs ev = 0" and "store_writes ev = 0"
  using assms
  by (auto simp: get_permission_def store_lookup_def Let_def split: option.splits if_splits)

lemma set_permission_quiet:
  assumes "set_permission st fails app application action p = (st', ev)"
  shows "responses ev = []" and "dialogs ev = 0"
  using assms
  by (auto simp: set_permission_def store_set_permission_def Let_def split: option.splits if_splits)

lemma activate_responses:
  "\<exists>code. responses (snd (snd (handle_activate_action_in_thread env st request application action))) =
     (if exported request then [code] else [])"
proof -
  obtain p ev1 where gp: "get_permission st (lookup_fails env) (app_id request) application action = (p, ev1)"
    by (cases "get_permission st (lookup_fails env) (app_id request) application action")
  obtain st_y ev_y where sy: "set_permission st (set_fails env) (app_id request) application action YES = (st_y, ev_y)"
    by (cases "set_permission st (set_fails env) (app_id request) application action YES")
  obtain st_n ev_n where sn: "set_permission st (set_fails env) (app_id request) application action NO = (st_n, ev_n)"
    by (cases "set_permission st (set_fails env) (app_id request) application action NO")
  note quiet = get_permission_quiet(1) [OF gp] set_permission_quiet(1) [OF sy] set_permission_quiet(1) [OF sn]
  show ?thesis
    using gp sy sn quiet
    by (simp add: handle_activate_action_in_thread_def Let_def split: option.splits)
qed

lemma activate_unexports:
  "\<not> exported (fst (snd (handle_activate_action_in_thread env st request application action)))"
  by (simp add: handle_activate_action_in_thread_def Let_def request_unexport_def
      split: option.splits prod.splits)

lemma accounts_responses:
  "\<exists>code. responses (snd (get_accounts_done request finish)) = (if exported request then [code] else [])"
  by (simp add: get_accounts_done_def send_response_in_thread_func_def split: option.splits)

lemma accounts_unexports: "\<not> exported (fst (get_accounts_done request finish))"
  by (simp add: get_accounts_done_def send_response_in_thread_func_def request_unexport_def
      split: option.splits)

lemma close_responses:
  "\<exists>code. responses (snd (close_request request)) = (if exported request then [code] else [])"
  by (simp add: close_request_def split: option.splits)

lemma close_unexports: "\<not> exported (fst (close_request request))"
  by (simp add: close_request_def request_unexport_def)

lemma get_geolocation_quiet:
  assumes "get_geolocation_permissions env st app = (decision, ev)"
  shows "responses ev = []" and "dialogs ev = 0" and "store_writes ev = 0"
  using assms
  by (auto simp: get_geolocation_permissions_def store_lookup_def split: option.splits if_splits)

lemma set_geolocation_quiet:
  assumes "set_geolocation_permissions env st app allowed timestamp = (st', ev)"
  shows "responses ev = []" and "dialogs ev = 0" and "store_writes ev = 1"
  using assms
  by (auto simp: set_geolocation_permissions_def store_set_permission_def Let_def
      split: option.splits if_splits)

lemma track_out_result:
  "track_out st request ev code =
     (st, request, ev @ (if exported request then [Response (request_id request) code] else []))"
  by (simp add: track_out_def)

lemma track_decided_result:
  "\<exists>ev'.
     track_decided env st request ev allowed last_used =
       (fst (set_geolocation_permissions env st (app_id request) allowed
               (if allowed then monotonic_time env else last_used)),
        request,
        ev @ ev' @
        (if exported request then [Response (request_id request) (if allowed then 0 else 1)] else [])) \<and>
     responses ev' = [] \<and> dialogs ev' = 0 \<and> store_writes ev' = 1"
proof -
  obtain st' ev_set where set: "set_geolocation_permissions env st (app_id request) allowed
      (if allowed then monotonic_time env else last_used) = (st', ev_set)"
    by (cases "set_geolocation_permissions env st (app_id request) allowed
      (if allowed then monotonic_time env else last_used)")
  note quiet = set_geolocation_quiet [OF set]
  let ?update = "if exported request then [Location_updated (request_id request)] else []"
  let ?said = "\<lambda>ev'. track_decided env st request ev allowed last_used =
       (fst (set_geolocation_permissions env st (app_id request) allowed
               (if allowed then monotonic_time env else last_used)),
        request,
        ev @ ev' @
        (if exported request then [Response (request_id request) (if allowed then 0 else 1)] else [])) \<and>
     responses ev' = [] \<and> dialogs ev' = 0 \<and> store_writes ev' = 1"
  show ?thesis
  proof (cases allowed)
    case True
    with set quiet have "?said (ev_set @ ?update)"
      by (simp add: track_decided_def track_out_result)
    then show ?thesis
      by (rule exI [of ?said])
  next
    case False
    with set quiet have "?said ev_set"
      by (simp add: track_decided_def track_out_result)
    then show ?thesis
      by (rule exI [of ?said])
  qed
qed

lemma track_responses:
  "\<exists>code. responses (snd (snd (handle_track_in_thread_func env st request))) =
     (if exported request then [code] else [])"
proof -
  obtain decision ev where gp: "get_geolocation_permissions env st (app_id request) = (decision, ev)"
    by (cases "get_geolocation_permissions env st (app_id request)")
  note quiet = get_geolocation_quiet(1) [OF gp]
  show ?thesis
  proof (cases decision)
    case (Some d)
    obtain allowed last_used where d: "d = (allowed, last_used)" by (cases d)
    from track_decided_result [of env st request ev allowed last_used] gp Some d quiet
    show ?thesis
      by (auto simp: handle_track_in_thread_func_def)
  next
    case None
    show ?thesis
    proof (cases "access_dialog env")
      case no_answer: None
      with gp None quiet show ?thesis
        by (simp add: handle_track_in_thread_func_def track_out_result request_set_impl_request_def)
    next
      case (Some r)
      let ?request = "request_set_impl_request (request_set_impl_request request (Some (request_id request))) None"
      from track_decided_result [of env st ?request
          "ev @ [Access_dialog (request_id request) (app_id request)]" "r = 0" 0]
        gp None Some quiet
      show ?thesis
        by (auto simp: handle_track_in_thread_func_def request_set_impl_request_def)
    qed
  qed
qed

lemma track_keeps_exported:
  "exported (fst (snd (handle_track_in_thread_func env st request))) = exported request"
proof -
  obtain decision ev where gp: "get_geolocation_permissions env st (app_id request) = (decision, ev)"
    by (cases "get_geolocation_permissions env st (app_id request)")
  show ?thesis
  proof (cases decision)
    case (Some d)
    obtain allowed last_used where d: "d = (allowed, last_used)" by (cases d)
    from track_decided_result [of env st request ev allowed last_used] gp Some d
    show ?thesis
      by (auto simp: handle_track_in_thread_func_def)
  next
    case None
    show ?thesis
    proof (cases "access_dialog env")
      case no_answer: None
      with gp None show ?thesis
        by (simp add: handle_track_in_thread_func_def track_out_result request_set_impl_request_def
            Let_def)
    next
      case (Some r)
      let ?request = "request_set_impl_request (request_set_impl_request request (Some (request_id request))) None"
      from track_decided_result [of env st ?request
          "ev @ [Access_dialog (request_id request) (app_id request)]" "r = 0" 0]
        gp None Some
      show ?thesis
        by (auto simp: handle_track_in_thread_func_def request_set_impl_request_def)
    qed
  qed
qed

subsection \<open>A request over its lifetime\<close>

lemma step_responses:
  "\<exists>code. responses (snd (snd (request_step op (st, request)))) =
     (if exported request then [code] else [])"
proof (cases op)
  case (Op_activate env application action)
  with activate_responses [of env st request application action] show ?thesis by simp
next
  case (Op_accounts_done finish)
  with accounts_responses [of request finish] show ?thesis
    by (simp split: prod.splits)
next
  case (Op_track env)
  with track_responses [of env st request] show ?thesis by simp
next
  case Op_close
  with close_responses [of request] show ?thesis
    by (simp split: prod.splits)
qed

lemma step_unexports:
  "unexporting op \<Longrightarrow> \<not> exported (fst (snd (request_step op (st, request))))"
proof (cases op)
  case (Op_activate env application action)
  with activate_unexports [of env st request application action] show ?thesis by simp
next
  case (Op_accounts_done finish)
  with accounts_unexports [of request finish] show ?thesis
    by (simp split: prod.splits)
next
  case (Op_track env)
  assume "unexporting op"
  with Op_track show ?thesis by simp
next
  case Op_close
  with close_unexports [of request] show ?thesis
    by (simp split: prod.splits)
qed

lemma step_stays_retired:
  "\<not> exported request \<Longrightarrow> \<not> exported (fst (snd (request_step op (st, request))))"
proof (cases op)
  case (Op_track env)
  assume "\<not> exported request"
  with Op_track track_keeps_exported [of env st request] show ?thesis by simp
next
  case (Op_activate env application action)
  then show ?thesis using step_unexports [of op st request] by simp
next
  case (Op_accounts_done finish)
  then show ?thesis using step_unexports [of op st request] by simp
next
  case Op_close
  then show ?thesis using step_unexports [of op st request] by simp
qed

lemma run_retired_silent:
  "\<not> exported request \<Longrightarrow> responses (snd (snd (request_run ops (st, request)))) = []"
proof (induction ops arbitrary: st request)
  case Nil
  then show ?case by simp
next
  case (Cons op ops)
  obtain st1 request1 ev1 where step: "request_step op (st, request) = (st1, request1, ev1)"
    by (cases "request_step op (st, request)")
  from step_responses [of op st request] step Cons.prems have silent: "responses ev1 = []"
    by simp
  from step_stays_retired [OF Cons.prems, of op st] step have "\<not> exported request1"
    by simp
  from Cons.IH [OF this, of st1] have "responses (snd (snd (request_run ops (st1, request1)))) = []" .
  with silent step show ?case
    by (cases "request_run ops (st1, request1)") simp
qed

lemma run_after_unexporting:
  assumes "unexporting op"
  shows "length (responses (snd (snd (request_run (op # ops) (st, request))))) \<le> 1"
proof -
  obtain st1 request1 ev1 where step: "request_step op (st, request) = (st1, request1, ev1)"
    by (cases "request_step op (st, request)")
  from step_responses [of op st request] step have one: "length (responses ev1) \<le> 1"
    by auto
  from step_unexports [OF assms, of st request] step have "\<not> exported request1"
    by simp
  from run_retired_silent [OF this, of ops st1]
  have "responses (snd (snd (request_run ops (st1, request1)))) = []" .
  with one step show ?thesis
    by (cases "request_run ops (st1, request1)") simp
qed

lemma track_granted_stays_exported:
  assumes "responses (snd (snd (handle_track_in_thread_func env st request))) =
             [XDG_DESKTOP_PORTAL_RESPONSE_SUCCESS]"
  shows "exported (fst (snd (handle_track_in_thread_func env st request)))"
proof -
  from track_responses [of env st request] assms have "exported request"
    by (auto split: if_splits)
  with track_keeps_exported [of env st request] show ?thesis
    by simp
qed

text \<open>
  C4, as far as the code goes. Every handler emits its response only while the request
  is exported: one response if it is, none if it is not. The worker of
  \<^verbatim>\<open>ActivateAction\<close>, the completion of a GNOME-accounts call and a close leave the
  request unexported, and whatever runs on the request afterwards emits nothing, so
  that at most one response is emitted in all. The worker of \<^verbatim>\<open>TrackLocation\<close>,
  when it answers success, leaves the request exported.
\<close>

theorem one_response_per_request:
  "(unexporting op \<longrightarrow>
      \<not> exported (fst (snd (request_step op (st, request)))) \<and>
      length (responses (snd (snd (request_run (op # ops) (st, request))))) \<le> 1) \<and>
   (\<not> exported request \<longrightarrow> responses (snd (snd (request_run ops (st, request)))) = []) \<and>
   (\<exists>code. responses (snd (snd (request_step op (st, request)))) =
              (if exported request then [code] else [])) \<and>
   (responses (snd (snd (handle_track_in_thread_func env st request))) =
      [XDG_DESKTOP_PORTAL_RESPONSE_SUCCESS] \<longrightarrow>
    exported (fst (snd (handle_track_in_thread_func env st request))))"
  using step_unexports [of op st request] run_after_unexporting [of op ops st request]
    run_retired_silent [of request ops st] step_responses [of op st request]
    track_granted_stays_exported [of env st request]
  by blast

theorem one_response_per_request_witness:
  "unexporting (Op_accounts_done None) \<and>
   \<not> exported (fst (snd (request_step (Op_accounts_done None) (Map.empty, sample_request)))) \<and>
   length (responses (snd (snd (request_run
      [Op_accounts_done None, Op_close, Op_activate sample_req_env ''org.example.Target'' ''quit'',
       Op_track sample_req_env]
      (Map.empty, sample_request))))) \<le> 1 \<and>
   \<not> exported (sample_request\<lparr>exported := False\<rparr>) \<and>
   responses (snd (snd (request_run [Op_close, Op_accounts_done (Some 0)]
      (Map.empty, sample_request\<lparr>exported := False\<rparr>)))) = [] \<and>
   exported sample_request \<and>
   (\<exists>code. responses (snd (snd (request_step (Op_accounts_done None) (Map.empty, sample_request)))) = [code]) \<and>
   responses (snd (snd (handle_track_in_thread_func sample_req_env Map.empty sample_request))) =
     [XDG_DESKTOP_PORTAL_RESPONSE_SUCCESS] \<and>
   exported (fst (snd (handle_track_in_thread_func sample_req_env Map.empty sample_request)))"
proof -
  have live: "exported sample_request" and retired: "\<not> exported (sample_request\<lparr>exported := False\<rparr>)"
    by (simp_all add: sample_request_def)
  have op: "unexporting (Op_accounts_done None)"
    by simp
  have granted: "responses (snd (snd (handle_track_in_thread_func sample_req_env Map.empty sample_request))) =
      [XDG_DESKTOP_PORTAL_RESPONSE_SUCCESS]"
    by (simp add: handle_track_in_thread_func_def get_geolocation_permissions_def store_lookup_def
        track_decided_def track_out_def set_geolocation_permissions_def store_set_permission_def
        request_set_impl_request_def Let_def XDG_DESKTOP_PORTAL_RESPONSE_SUCCESS_def
        sample_request_def sample_req_env_def)
  from one_response_per_request [of "Op_accounts_done None" Map.empty sample_request
      "[Op_close, Op_activate sample_req_env ''org.example.Target'' ''quit'', Op_track sample_req_env]"
      sample_req_env]
    one_response_per_request [of "Op_accounts_done None" Map.empty "sample_request\<lparr>exported := False\<rparr>"
      "[Op_close, Op_accounts_done (Some 0)]" sample_req_env]
    live retired op granted
  show ?thesis
    by simp
qed

text \<open>
  C4 as stated fails: the worker of \<^verbatim>\<open>TrackLocation\<close> answers an exported request and
  does not unexport it, so a close that follows emits a second response.
\<close>

theorem track_location_counterexample:
  "exported sample_request \<and>
   exported (fst (snd (request_step (Op_track sample_req_env) (Map.empty, sample_request)))) \<and>
   responses (snd (snd (request_step (Op_track sample_req_env) (Map.empty, sample_request)))) = [0] \<and>
   responses (snd (snd (request_run [Op_track sample_req_env, Op_close] (Map.empty, sample_request)))) =
     [0, 1]"
  by (simp add: handle_track_in_thread_func_def get_geolocation_permissions_def store_lookup_def
      track_decided_def track_out_def set_geolocation_permissions_def store_set_permission_def
      request_set_impl_request_def close_request_def request_unexport_def Let_def
      XDG_DESKTOP_PORTAL_RESPONSE_CANCELLED_def sample_request_def sample_req_env_def)

subsection \<open>Asking once\<close>

lemma activate_recall:
  assumes "fst (get_permission st (lookup_fails env) (app_id request) application action) = YES \<or>
           fst (get_permission st (lookup_fails env) (app_id request) application action) = NO"
  shows "fst (handle_activate_action_in_thread env st request application action) = st"
    and "dialogs (snd (snd (handle_activate_action_in_thread env st request application action))) = 0"
    and "store_writes (snd (snd (handle_activate_action_in_thread env st request application action))) = 0"
proof -
  obtain p ev where gp: "get_permission st (lookup_fails env) (app_id request) application action = (p, ev)"
    by (cases "get_permission st (lookup_fails env) (app_id request) application action")
  note quiet = get_permission_quiet [OF gp]
  from assms gp have p: "p = YES \<or> p = NO" by simp
  from p gp quiet show "fst (handle_activate_action_in_thread env st request application action) = st"
    by (auto simp: handle_activate_action_in_thread_def Let_def)
  from p gp quiet
  show "dialogs (snd (snd (handle_activate_action_in_thread env st request application action))) = 0"
    by (auto simp: handle_activate_action_in_thread_def Let_def)
  from p gp quiet
  show "store_writes (snd (snd (handle_activate_action_in_thread env st request application action))) = 0"
    by (auto simp: handle_activate_action_in_thread_def Let_def)
qed

lemma get_permission_stored:
  "permissions = [''yes''] \<or> permissions = [''no''] \<Longrightarrow>
   fst (get_permission (st((TABLE_NAME, application @ ''::'' @ action, app) \<mapsto> permissions)) False
          app application action) =
     (if permissions = [''yes''] then YES else NO)"
  by (auto simp: get_permission_def store_lookup_def Let_def)

lemma activate_first:
  assumes unset: "fst (get_permission st False (app_id request) application action) = UNSET"
    and store: "\<not> lookup_fails env" "\<not> set_fails env"
  shows "dialogs (snd (snd (handle_activate_action_in_thread env st request application action))) = 1"
    and "store_writes (snd (snd (handle_activate_action_in_thread env st request application action))) = 1"
    and "fst (handle_activate_action_in_thread env st request application action) =
           st((TABLE_NAME, application @ ''::'' @ action, app_id request) \<mapsto>
                [if access_dialog env = Some 0 then ''yes'' else ''no''])"
proof -
  obtain ev where gp: "get_permission st (lookup_fails env) (app_id request) application action = (UNSET, ev)"
    using unset store(1)
    by (cases "get_permission st False (app_id request) application action") simp
  note quiet = get_permission_quiet [OF gp]
  from gp quiet store(2)
  show "dialogs (snd (snd (handle_activate_action_in_thread env st request application action))) = 1"
    by (auto simp: handle_activate_action_in_thread_def Let_def set_permission_def
        store_set_permission_def split: option.splits)
  from gp quiet store(2)
  show "store_writes (snd (snd (handle_activate_action_in_thread env st request application action))) = 1"
    by (auto simp: handle_activate_action_in_thread_def Let_def set_permission_def
        store_set_permission_def split: option.splits)
  from gp quiet store(2)
  show "fst (handle_activate_action_in_thread env st request application action) =
      st((TABLE_NAME, application @ ''::'' @ action, app_id request) \<mapsto>
           [if access_dialog env = Some 0 then ''yes'' else ''no''])"
    by (auto simp: handle_activate_action_in_thread_def Let_def set_permission_def
        store_set_permission_def split: option.splits)
qed

lemma later_calls_recall:
  "fst (get_permission st False app application action) = YES \<or>
   fst (get_permission st False app application action) = NO \<Longrightarrow>
   \<forall>(e, r)\<in>set later. \<not> lookup_fails e \<and> app_id r = app \<Longrightarrow>
   fst (activate_calls later application action st) = st \<and>
   dialogs (snd (activate_calls later application action st)) = 0 \<and>
   store_writes (snd (activate_calls later application action st)) = 0"
proof (induction later)
  case Nil
  then show ?case by simp
next
  case (Cons call later)
  obtain e r where call: "call = (e, r)" by (cases call)
  from Cons.prems(2) call have env: "\<not> lookup_fails e" and app: "app_id r = app"
    and rest: "\<forall>(e, r)\<in>set later. \<not> lookup_fails e \<and> app_id r = app"
    by simp_all
  from Cons.prems(1) env app
  have stored: "fst (get_permission st (lookup_fails e) (app_id r) application action) = YES \<or>
      fst (get_permission st (lookup_fails e) (app_id r) application action) = NO"
    by simp
  obtain st1 r1 ev1 where run: "handle_activate_action_in_thread e st r application action = (st1, r1, ev1)"
    by (cases "handle_activate_action_in_thread e st r application action")
  from activate_recall [OF stored] run have first: "st1 = st" "dialogs ev1 = 0" "store_writes ev1 = 0"
    by simp_all
  from Cons.IH [OF Cons.prems(1) rest] first run call show ?case
    by (cases "activate_calls later application action st") simp
qed

lemma geo_decision_stored:
  assumes "\<not> lookup_fails env'"
  shows "get_geolocation_permissions env'
           (st((PERMISSIONS_TABLE, PERMISSIONS_ID, app) \<mapsto>
                 [if allowed then ''EXACT'' else ''NONE'', stamp])) app =
         (Some (allowed, ascii_strtoll env' stamp), [])"
  using assms by (simp add: get_geolocation_permissions_def store_lookup_def)

lemma geo_decision_reread:
  assumes "fst (get_geolocation_permissions env st app) = Some (allowed, last_used)"
    and "\<not> lookup_fails env'"
  shows "\<exists>l. fst (get_geolocation_permissions env' st app) = Some (allowed, l)"
  using assms
  by (auto simp: get_geolocation_permissions_def store_lookup_def split: option.splits if_splits)

lemma geo_decision_after_write:
  assumes "\<not> lookup_fails env'"
    and "set_fails env \<longrightarrow> (\<exists>l. fst (get_geolocation_permissions env' st app) = Some (allowed, l))"
  shows "\<exists>l. fst (get_geolocation_permissions env'
                    (fst (set_geolocation_permissions env st app allowed stamp)) app) =
              Some (allowed, l)"
proof (cases "set_fails env")
  case True
  with assms(2) show ?thesis
    by (simp add: set_geolocation_permissions_def store_set_permission_def Let_def)
next
  case False
  then have "fst (set_geolocation_permissions env st app allowed stamp) =
      st((PERMISSIONS_TABLE, PERMISSIONS_ID, app) \<mapsto>
           [if allowed then ''EXACT'' else ''NONE'', print_li stamp])"
    by (simp add: set_geolocation_permissions_def store_set_permission_def Let_def)
  with geo_decision_stored [OF assms(1), of st app allowed "print_li stamp"] show ?thesis
    by simp
qed

lemma track_recall:
  assumes "fst (get_geolocation_permissions env st (app_id request)) = Some (allowed, last_used)"
  shows "dialogs (snd (snd (handle_track_in_thread_func env st request))) = 0"
    and "store_writes (snd (snd (handle_track_in_thread_func env st request))) = 1"
    and "\<not> lookup_fails env' \<Longrightarrow>
         \<exists>l. fst (get_geolocation_permissions env' (fst (handle_track_in_thread_func env st request))
                     (app_id request)) = Some (allowed, l)"
proof -
  from assms obtain ev where
    gp: "get_geolocation_permissions env st (app_id request) = (Some (allowed, last_used), ev)"
    by (cases "get_geolocation_permissions env st (app_id request)") auto
  note quiet = get_geolocation_quiet [OF gp]
  from track_decided_result [of env st request ev allowed last_used] gp quiet
  show "dialogs (snd (snd (handle_track_in_thread_func env st request))) = 0"
    by (auto simp: handle_track_in_thread_func_def)
  from track_decided_result [of env st request ev allowed last_used] gp quiet
  show "store_writes (snd (snd (handle_track_in_thread_func env st request))) = 1"
    by (auto simp: handle_track_in_thread_func_def)
  assume answers: "\<not> lookup_fails env'"
  from track_decided_result [of env st request ev allowed last_used] gp
  have "fst (handle_track_in_thread_func env st request) =
      fst (set_geolocation_permissions env st (app_id request) allowed
             (if allowed then monotonic_time env else last_used))"
    by (auto simp: handle_track_in_thread_func_def)
  with geo_decision_after_write [OF answers, of env st "app_id request" allowed]
    geo_decision_reread [OF assms answers]
  show "\<exists>l. fst (get_geolocation_permissions env' (fst (handle_track_in_thread_func env st request))
                     (app_id request)) = Some (allowed, l)"
    by simp
qed

lemma track_first:
  assumes unset: "fst (get_geolocation_permissions env st (app_id request)) = None"
    and answered: "access_dialog env = Some answer"
  shows "dialogs (snd (snd (handle_track_in_thread_func env st request))) = 1"
    and "store_writes (snd (snd (handle_track_in_thread_func env st request))) = 1"
    and "\<not> set_fails env \<Longrightarrow> \<not> lookup_fails env' \<Longrightarrow>
         \<exists>l. fst (get_geolocation_permissions env' (fst (handle_track_in_thread_func env st request))
                     (app_id request)) = Some (answer = 0, l)"
proof -
  from unset obtain ev where
    gp: "get_geolocation_permissions env st (app_id request) = (None, ev)"
    by (cases "get_geolocation_permissions env st (app_id request)") auto
  note quiet = get_geolocation_quiet [OF gp]
  let ?request = "request_set_impl_request
      (request_set_impl_request request (Some (request_id request))) None"
  have same: "app_id ?request = app_id request" "request_id ?request = request_id request"
    "exported ?request = exported request"
    by (simp_all add: request_set_impl_request_def)
  have run: "handle_track_in_thread_func env st request =
      track_decided env st ?request (ev @ [Access_dialog (request_id request) (app_id request)])
        (answer = 0) 0"
    using gp answered by (simp add: handle_track_in_thread_func_def Let_def)
  from track_decided_result [of env st ?request
      "ev @ [Access_dialog (request_id request) (app_id request)]" "answer = 0" 0]
  obtain ev' where decided: "track_decided env st ?request
        (ev @ [Access_dialog (request_id request) (app_id request)]) (answer = 0) 0 =
      (fst (set_geolocation_permissions env st (app_id request) (answer = 0)
              (if answer = 0 then monotonic_time env else 0)),
       ?request,
       (ev @ [Access_dialog (request_id request) (app_id request)]) @ ev' @
       (if exported request then [Response (request_id request) (if answer = 0 then 0 else 1)] else []))"
    and silent: "responses ev' = []" "dialogs ev' = 0" "store_writes ev' = 1"
    unfolding same by blast
  from run decided quiet silent
  show "dialogs (snd (snd (handle_track_in_thread_func env st request))) = 1"
    by simp
  from run decided quiet silent
  show "store_writes (snd (snd (handle_track_in_thread_func env st request))) = 1"
    by simp
  assume store: "\<not> set_fails env" and answers: "\<not> lookup_fails env'"
  from run decided have "fst (handle_track_in_thread_func env st request) =
      fst (set_geolocation_permissions env st (app_id request) (answer = 0)
             (if answer = 0 then monotonic_time env else 0))"
    by simp
  with geo_decision_after_write [OF answers, of env st "app_id request" "answer = 0"] store
  show "\<exists>l. fst (get_geolocation_permissions env' (fst (handle_track_in_thread_func env st request))
                     (app_id request)) = Some (answer = 0, l)"
    by simp
qed

text \<open>
  C5, as far as the code goes. While the permission store answers and the access dialog
  is answered, a call that finds no stored decision (an \<^verbatim>\<open>ActivateAction\<close> call for
  its application, target and action, a \<^verbatim>\<open>TrackLocation\<close> call for its application)
  drives the dialog once and writes the decision once, allow if access was granted and
  deny otherwise, and the decision is found afterwards. Every later series of
  \<^verbatim>\<open>ActivateAction\<close> calls for the same three finds the decision, drives no dialog,
  writes nothing and leaves the store as it is. A \<^verbatim>\<open>TrackLocation\<close> call that finds a
  stored decision drives no dialog either, but writes the record again, and the
  decision stays as it was.
\<close>

theorem ask_once_then_recall:
  "(\<not> lookup_fails env \<and> \<not> set_fails env \<and> access_dialog env = Some answer \<and>
    fst (get_permission st False (app_id request) application action) = UNSET \<longrightarrow>
      dialogs (snd (snd (handle_activate_action_in_thread env st request application action))) = 1 \<and>
      store_writes (snd (snd (handle_activate_action_in_thread env st request application action))) = 1 \<and>
      fst (get_permission (fst (handle_activate_action_in_thread env st request application action))
             False (app_id request) application action) = (if answer = 0 then YES else NO) \<and>
      ((\<forall>(e, r)\<in>set later. \<not> lookup_fails e \<and> app_id r = app_id request) \<longrightarrow>
         fst (activate_calls later application action
                (fst (handle_activate_action_in_thread env st request application action))) =
           fst (handle_activate_action_in_thread env st request application action) \<and>
         dialogs (snd (activate_calls later application action
                (fst (handle_activate_action_in_thread env st request application action)))) = 0 \<and>
         store_writes (snd (activate_calls later application action
                (fst (handle_activate_action_in_thread env st request application action)))) = 0)) \<and>
   (\<not> lookup_fails env \<and> \<not> set_fails env \<and> access_dialog env = Some answer \<and>
    fst (get_geolocation_permissions env st (app_id request)) = None \<longrightarrow>
      dialogs (snd (snd (handle_track_in_thread_func env st request))) = 1 \<and>
      store_writes (snd (snd (handle_track_in_thread_func env st request))) = 1 \<and>
      (\<not> lookup_fails env' \<longrightarrow>
         (\<exists>l. fst (get_geolocation_permissions env'
                      (fst (handle_track_in_thread_func env st request)) (app_id request)) =
               Some (answer = 0, l)))) \<and>
   (fst (get_geolocation_permissions env st (app_id request)) = Some (allowed, last_used) \<longrightarrow>
      dialogs (snd (snd (handle_track_in_thread_func env st request))) = 0 \<and>
      store_writes (snd (snd (handle_track_in_thread_func env st request))) = 1 \<and>
      (\<not> lookup_fails env' \<longrightarrow>
         (\<exists>l. fst (get_geolocation_permissions env'
                      (fst (handle_track_in_thread_func env st request)) (app_id request)) =
               Some (allowed, l))))"
proof (intro conjI impI)
  let ?first = "handle_activate_action_in_thread env st request application action"
  {
    assume asked: "\<not> lookup_fails env \<and> \<not> set_fails env \<and> access_dialog env = Some answer \<and>
      fst (get_permission st False (app_id request) application action) = UNSET"
    then have unset: "fst (get_permission st False (app_id request) application action) = UNSET"
      and store: "\<not> lookup_fails env" "\<not> set_fails env" and answered: "access_dialog env = Some answer"
      by simp_all
    from activate_first [OF unset store]
    show "dialogs (snd (snd ?first)) = 1" and "store_writes (snd (snd ?first)) = 1"
      by simp_all
    from activate_first(3) [OF unset store] answered
    have st1: "fst ?first = st((TABLE_NAME, application @ ''::'' @ action, app_id request) \<mapsto>
        [if answer = 0 then ''yes'' else ''no''])"
      by simp
    show stored: "fst (get_permission (fst ?first) False (app_id request) application action) =
        (if answer = 0 then YES else NO)"
      unfolding st1
      using get_permission_stored [of "[if answer = 0 then ''yes'' else ''no'']" st application action
          "app_id request"]
      by simp
    then have decided: "fst (get_permission (fst ?first) False (app_id request) application action) = YES \<or>
        fst (get_permission (fst ?first) False (app_id request) application action) = NO"
      by simp
    assume same: "\<forall>(e, r)\<in>set later. \<not> lookup_fails e \<and> app_id r = app_id request"
    from later_calls_recall [OF decided same]
    show "fst (activate_calls later application action (fst ?first)) = fst ?first"
      and "dialogs (snd (activate_calls later application action (fst ?first))) = 0"
      and "store_writes (snd (activate_calls later application action (fst ?first))) = 0"
      by simp_all
  }
  {
    assume asked: "\<not> lookup_fails env \<and> \<not> set_fails env \<and> access_dialog env = Some answer \<and>
      fst (get_geolocation_permissions env st (app_id request)) = None"
    then have unset: "fst (get_geolocation_permissions env st (app_id request)) = None"
      and store: "\<not> set_fails env" and answered: "access_dialog env = Some answer"
      by simp_all
    from track_first(1,2) [OF unset answered]
    show "dialogs (snd (snd (handle_track_in_thread_func env st request))) = 1"
      and "store_writes (snd (snd (handle_track_in_thread_func env st request))) = 1"
      by simp_all
    assume answers: "\<not> lookup_fails env'"
    from track_first(3) [OF unset answered store answers]
    show "\<exists>l. fst (get_geolocation_permissions env'
                      (fst (handle_track_in_thread_func env st request)) (app_id request)) =
               Some (answer = 0, l)" .
  }
  {
    assume known: "fst (get_geolocation_permissions env st (app_id request)) = Some (allowed, last_used)"
    from track_recall(1,2) [OF known]
    show "dialogs (snd (snd (handle_track_in_thread_func env st request))) = 0"
      and "store_writes (snd (snd (handle_track_in_thread_func env st request))) = 1"
      by simp_all
    assume answers: "\<not> lookup_fails env'"
    from track_recall(3) [OF known answers]
    show "\<exists>l. fst (get_geolocation_permissions env'
                      (fst (handle_track_in_thread_func env st request)) (app_id request)) =
               Some (allowed, l)" .
  }
qed

theorem ask_once_then_recall_witness:
  "\<not> lookup_fails sample_req_env \<and> \<not> set_fails sample_req_env \<and>
   access_dialog sample_req_env = Some 0 \<and>
   fst (get_permission Map.empty False (app_id sample_request) ''org.example.Target'' ''quit'') = UNSET \<and>
   dialogs (snd (snd (handle_activate_action_in_thread sample_req_env Map.empty sample_request
      ''org.example.Target'' ''quit''))) = 1 \<and>
   store_writes (snd (snd (handle_activate_action_in_thread sample_req_env Map.empty sample_request
      ''org.example.Target'' ''quit''))) = 1 \<and>
   fst (get_permission
          (fst (handle_activate_action_in_thread sample_req_env Map.empty sample_request
             ''org.example.Target'' ''quit''))
          False (app_id sample_request) ''org.example.Target'' ''quit'') = YES \<and>
   app_id (sample_request\<lparr>request_id := ''/request/2''\<rparr>) = app_id sample_request \<and>
   app_id (sample_request\<lparr>request_id := ''/request/3''\<rparr>) = app_id sample_request \<and>
   fst (activate_calls [(sample_req_env, sample_request\<lparr>request_id := ''/request/2''\<rparr>),
                        (sample_req_env, sample_request\<lparr>request_id := ''/request/3''\<rparr>)]
          ''org.example.Target'' ''quit''
          (fst (handle_activate_action_in_thread sample_req_env Map.empty sample_request
             ''org.example.Target'' ''quit''))) =
     fst (handle_activate_action_in_thread sample_req_env Map.empty sample_request
             ''org.example.Target'' ''quit'') \<and>
   dialogs (snd (activate_calls [(sample_req_env, sample_request\<lparr>request_id := ''/request/2''\<rparr>),
                        (sample_req_env, sample_request\<lparr>request_id := ''/request/3''\<rparr>)]
          ''org.example.Target'' ''quit''
          (fst (handle_activate_action_in_thread sample_req_env Map.empty sample_request
             ''org.example.Target'' ''quit'')))) = 0 \<and>
   store_writes (snd (activate_calls [(sample_req_env, sample_request\<lparr>request_id := ''/request/2''\<rparr>),
                        (sample_req_env, sample_request\<lparr>request_id := ''/request/3''\<rparr>)]
          ''org.example.Target'' ''quit''
          (fst (handle_activate_action_in_thread sample_req_env Map.empty sample_request
             ''org.example.Target'' ''quit'')))) = 0 \<and>
   fst (get_geolocation_permissions sample_req_env Map.empty (app_id sample_request)) = None \<and>
   dialogs (snd (snd (handle_track_in_thread_func sample_req_env Map.empty sample_request))) = 1 \<and>
   store_writes (snd (snd (handle_track_in_thread_func sample_req_env Map.empty sample_request))) = 1 \<and>
   (\<exists>l. fst (get_geolocation_permissions sample_req_env
                (fst (handle_track_in_thread_func sample_req_env Map.empty sample_request))
                (app_id sample_request)) = Some (True, l)) \<and>
   fst (get_geolocation_permissions sample_req_env geo_store (app_id sample_request)) = Some (True, 5) \<and>
   dialogs (snd (snd (handle_track_in_thread_func sample_req_env geo_store sample_request))) = 0 \<and>
   store_writes (snd (snd (handle_track_in_thread_func sample_req_env geo_store sample_request))) = 1 \<and>
   (\<exists>l. fst (get_geolocation_permissions sample_req_env
                (fst (handle_track_in_thread_func sample_req_env geo_store sample_request))
                (app_id sample_request)) = Some (True, l))"
proof -
  let ?later = "[(sample_req_env, sample_request\<lparr>request_id := ''/request/2''\<rparr>),
                 (sample_req_env, sample_request\<lparr>request_id := ''/request/3''\<rparr>)]"
  have unset: "fst (get_permission Map.empty False (app_id sample_request) ''org.example.Target'' ''quit'') = UNSET"
    by (simp add: get_permission_def store_lookup_def)
  have store: "\<not> lookup_fails sample_req_env" "\<not> set_fails sample_req_env"
    and yes: "access_dialog sample_req_env = Some 0"
    by (simp_all add: sample_req_env_def)
  have same: "app_id (sample_request\<lparr>request_id := ''/request/2''\<rparr>) = app_id sample_request"
    "app_id (sample_request\<lparr>request_id := ''/request/3''\<rparr>) = app_id sample_request"
    by simp_all
  from store(1) same have later: "\<forall>(e, r)\<in>set ?later. \<not> lookup_fails e \<and> app_id r = app_id sample_request"
    by simp
  have no_record: "fst (get_geolocation_permissions sample_req_env Map.empty (app_id sample_request)) = None"
    by (simp add: get_geolocation_permissions_def store_lookup_def sample_req_env_def)
  have known: "fst (get_geolocation_permissions sample_req_env geo_store (app_id sample_request)) =
      Some (True, 5)"
    by (simp add: get_geolocation_permissions_def store_lookup_def geo_store_def sample_req_env_def
        sample_request_def PERMISSIONS_TABLE_def PERMISSIONS_ID_def)
  from store yes unset have first_action: "\<not> lookup_fails sample_req_env \<and> \<not> set_fails sample_req_env \<and>
      access_dialog sample_req_env = Some 0 \<and>
      fst (get_permission Map.empty False (app_id sample_request) ''org.example.Target'' ''quit'') = UNSET"
    by (intro conjI)
  from store yes no_record have first_track: "\<not> lookup_fails sample_req_env \<and> \<not> set_fails sample_req_env \<and>
      access_dialog sample_req_env = Some 0 \<and>
      fst (get_geolocation_permissions sample_req_env Map.empty (app_id sample_request)) = None"
    by (intro conjI)
  note fresh = ask_once_then_recall [of sample_req_env 0 Map.empty sample_request
      "''org.example.Target''" "''quit''" ?later sample_req_env True 5]
  note stored = ask_once_then_recall [of sample_req_env 0 geo_store sample_request
      "''org.example.Target''" "''quit''" ?later sample_req_env True 5]
  note action = fresh [THEN conjunct1, THEN mp, OF first_action]
  note action_later = action [THEN conjunct2, THEN conjunct2, THEN conjunct2, THEN mp, OF later]
  note track = fresh [THEN conjunct2, THEN conjunct1, THEN mp, OF first_track]
  note track_found = track [THEN conjunct2, THEN conjunct2, THEN mp, OF store(1)]
  note again = stored [THEN conjunct2, THEN conjunct2, THEN mp, OF known]
  note again_found = again [THEN conjunct2, THEN conjunct2, THEN mp, OF store(1)]
  have granted: "((0::nat) = 0) = True"
    by simp
  from store yes unset same no_record known
    action [THEN conjunct1] action [THEN conjunct2, THEN conjunct1]
    action [THEN conjunct2, THEN conjunct2, THEN conjunct1, unfolded granted if_True]
    action_later
    track [THEN conjunct1] track [THEN conjunct2, THEN conjunct1] track_found [unfolded granted]
    again [THEN conjunct1] again [THEN conjunct2, THEN conjunct1] again_found
  show ?thesis
    by (elim conjE, intro conjI) assumption+
qed

text \<open>
  C5 as stated fails. With a location decision already stored, a \<^verbatim>\<open>TrackLocation\<close>
  call skips the dialog and still writes to the permission store. When the store
  refuses the write of the first \<^verbatim>\<open>ActivateAction\<close> call, nothing is persisted and
  the second call drives the dialog and writes again. When the store cannot be read,
  a call drives the dialog although a decision is stored.
\<close>

theorem ask_once_counterexample:
  "fst (get_geolocation_permissions sample_req_env geo_store (app_id sample_request)) = Some (True, 5) \<and>
   dialogs (snd (snd (handle_track_in_thread_func sample_req_env geo_store sample_request))) = 0 \<and>
   store_writes (snd (snd (handle_track_in_thread_func sample_req_env geo_store sample_request))) = 1 \<and>
   fst (get_permission Map.empty False (app_id sample_request) ''org.example.Target'' ''quit'') = UNSET \<and>
   fst (handle_activate_action_in_thread (sample_req_env\<lparr>set_fails := True\<rparr>) Map.empty sample_request
          ''org.example.Target'' ''quit'') = Map.empty \<and>
   dialogs (snd (activate_calls
      [(sample_req_env\<lparr>set_fails := True\<rparr>, sample_request),
       (sample_req_env, sample_request\<lparr>request_id := ''/request/2''\<rparr>)]
      ''org.example.Target'' ''quit'' Map.empty)) = 2 \<and>
   store_writes (snd (activate_calls
      [(sample_req_env\<lparr>set_fails := True\<rparr>, sample_request),
       (sample_req_env, sample_request\<lparr>request_id := ''/request/2''\<rparr>)]
      ''org.example.Target'' ''quit'' Map.empty)) = 2 \<and>
   fst (get_permission
          [(''actions'', ''org.example.Target::quit'', ''org.example.Caller'') \<mapsto> [''yes'']]
          False (app_id sample_request) ''org.example.Target'' ''quit'') = YES \<and>
   dialogs (snd (snd (handle_activate_action_in_thread (sample_req_env\<lparr>lookup_fails := True\<rparr>)
      [(''actions'', ''org.example.Target::quit'', ''org.example.Caller'') \<mapsto> [''yes'']]
      sample_request ''org.example.Target'' ''quit''))) = 1"
  by (simp add: handle_track_in_thread_func_def get_geolocation_permissions_def store_lookup_def
      track_decided_def track_out_def set_geolocation_permissions_def store_set_permission_def
      handle_activate_action_in_thread_def get_permission_def set_permission_def
      Let_def geo_store_def sample_request_def sample_req_env_def PERMISSIONS_TABLE_def
      PERMISSIONS_ID_def TABLE_NAME_def)

subsection \<open>A failing backend\<close>

text \<open>
  C6, evaluated on the code: when the access dialog call of \<^verbatim>\<open>ActivateAction\<close> fails
  and no decision is stored, the worker logs the failure, stores the decision no, and
  completes the request with response 1 (cancelled), not with 2 (other failure).
\<close>

theorem failed_dialog_answers_cancelled:
  "access_dialog (sample_req_env\<lparr>access_dialog := None\<rparr>) = None \<and>
   snd (snd (handle_activate_action_in_thread (sample_req_env\<lparr>access_dialog := None\<rparr>) Map.empty
          sample_request ''org.example.Target'' ''quit'')) =
     [Access_dialog ''/request/1'' ''org.example.Caller'',
      Warning ''A backend call failed'',
      Store_write ''actions'' ''org.example.Target::quit'' ''org.example.Caller'' [''no''],
      Response ''/request/1'' 1] \<and>
   XDG_DESKTOP_PORTAL_RESPONSE_OTHER = 2"
  by (simp add: handle_activate_action_in_thread_def get_permission_def set_permission_def
      store_lookup_def store_set_permission_def Let_def TABLE_NAME_def
      XDG_DESKTOP_PORTAL_RESPONSE_CANCELLED_def XDG_DESKTOP_PORTAL_RESPONSE_OTHER_def
      sample_request_def sample_req_env_def)

end
